theory Spec2Isabelle
  imports Main "HOL-Library.Word" "HOL-Library.Multiset" "HOL-Library.Extended_Nat"
begin

unbundle bit_operations_syntax

section \<open>JavaScript values as the broker uses them\<close>

text \<open>
  A JavaScript string is a sequence of UTF-16 code units, a byte buffer a sequence of
  octets. Lengths and Unix seconds are mathematical integers. The result of
  \<^verbatim>\<open>parseInt\<close> on a run of digits is a JavaScript number, an IEEE 754 double that
  is a natural number or \<^verbatim>\<open>Infinity\<close>: an \<open>enat\<close>, whose order is the order of
  \<^verbatim>\<open><\<close> on these numbers.
\<close>

type_synonym jschar = "16 word"
type_synonym jsstring = "jschar list"
type_synonym byte = "8 word"

text \<open>An ASCII literal as a JavaScript string.\<close>

definition js :: "string \<Rightarrow> jsstring" where
  "js s = map (\<lambda>c. of_char c) s"

section \<open>utils.ts: the name comparator\<close>

text \<open>
  The character classes of the three regular expressions: \<^verbatim>\<open>\s\<close> (ECMAScript
  WhiteSpace and LineTerminator), \<^verbatim>\<open>[a-zA-Z]\<close> and \<^verbatim>\<open>\d\<close>.
\<close>

definition isWhiteSpace :: "jschar \<Rightarrow> bool" where
  "isWhiteSpace c \<longleftrightarrow>
     c \<in> {0x09, 0x0A, 0x0B, 0x0C, 0x0D, 0x20, 0xA0, 0x1680, 0x2028, 0x2029, 0x202F,
          0x205F, 0x3000, 0xFEFF}
     \<or> (0x2000 \<le> c \<and> c \<le> 0x200A)"

definition isLetter :: "jschar \<Rightarrow> bool" where
  "isLetter c \<longleftrightarrow> (0x41 \<le> c \<and> c \<le> 0x5A) \<or> (0x61 \<le> c \<and> c \<le> 0x7A)"

definition isDigit :: "jschar \<Rightarrow> bool" where
  "isDigit c \<longleftrightarrow> 0x30 \<le> c \<and> c \<le> 0x39"

text \<open>\<^verbatim>\<open>str.replace(/\s+/g, "")\<close>\<close>

definition removeWhitespace :: "jsstring \<Rightarrow> jsstring" where
  "removeWhitespace s = filter (\<lambda>c. \<not> isWhiteSpace c) s"

text \<open>
  \<^verbatim>\<open>parseInt(digits, 10)\<close> on a run of decimal digits: the integer the digits
  denote, then the Number value for it. A double has a significand of 53 bits: an
  integer below \<open>2 ^ 53\<close> is kept as it is, a larger one loses its low bits, rounded to
  the nearest representable value, to the even significand on a tie, and to
  \<^verbatim>\<open>Infinity\<close> from \<open>2 ^ 1024\<close> on. (ECMAScript lets an implementation replace the
  digits after the twentieth by zeros first; the digits are kept here.)
\<close>

definition mathInt :: "jsstring \<Rightarrow> nat" where
  "mathInt ds = foldl (\<lambda>n c. 10 * n + (unat c - 48)) 0 ds"

text \<open>The number of low bits an integer loses to fit a significand of 53 bits.\<close>

function lostBits :: "nat \<Rightarrow> nat" where
  "lostBits n = (if n < 2 ^ 53 then 0 else Suc (lostBits (n div 2)))"
  by pat_completeness auto
termination
  by (relation "measure id") auto

declare lostBits.simps [simp del]

definition Number_value :: "nat \<Rightarrow> enat" where
  "Number_value n =
     (let e = lostBits n;
          q = n div 2 ^ e;
          r = n mod 2 ^ e;
          up = (2 * r > 2 ^ e \<or> (2 * r = 2 ^ e \<and> odd q));
          v = (if up then q + 1 else q) * 2 ^ e
      in if v < 2 ^ 1024 then enat v else \<infinity>)"

definition parseInt :: "jsstring \<Rightarrow> enat" where
  "parseInt ds = Number_value (mathInt ds)"

text \<open>
  \<^verbatim>\<open>s.match(/^([a-zA-Z]+)(\d*)$/)\<close>: the two groups, or \<open>None\<close> for
  \<^verbatim>\<open>null\<close>. The first group is greedy and a digit is no letter, so the split
  is the longest run of letters and what follows it.
\<close>

definition matchLettersDigits :: "jsstring \<Rightarrow> (jsstring \<times> jsstring) option" where
  "matchLettersDigits s =
     (let letters = takeWhile isLetter s; digits = dropWhile isLetter s
      in if letters \<noteq> [] \<and> list_all isDigit digits then Some (letters, digits) else None)"

text \<open>
  The loop over the first \<open>minLen\<close> characters of the letter parts: \<open>Some r\<close> when
  it returns \<open>r\<close>, \<open>None\<close> when it runs to its end.
\<close>

fun compareLetters :: "jsstring \<Rightarrow> jsstring \<Rightarrow> int option" where
  "compareLetters (c1 # l1) (c2 # l2) =
     (if c1 < c2 then Some (- 1) else if c1 > c2 then Some 1 else compareLetters l1 l2)"
| "compareLetters _ _ = None"

text \<open>
  \<^verbatim>\<open>naturalCompare\<close>. A token is a number (a run of digits) or a string (a run of
  anything else); \<^verbatim>\<open>/(\d+)|(\D+)/g\<close> cuts the string into its maximal runs.
\<close>

datatype token = Num enat | Str jsstring

function tokenize :: "jsstring \<Rightarrow> token list" where
  "tokenize [] = []"
| "tokenize (c # cs) =
     (if isDigit c
      then Num (parseInt (c # takeWhile isDigit cs)) # tokenize (dropWhile isDigit cs)
      else Str (c # takeWhile (\<lambda>d. \<not> isDigit d) cs) # tokenize (dropWhile (\<lambda>d. \<not> isDigit d) cs))"
  by pat_completeness auto
termination
  by (relation "measure length") (auto simp: length_dropWhile_le less_Suc_eq_le)

text \<open>\<^verbatim>\<open>sa < sb\<close> on two strings: code unit by code unit, a proper prefix first.\<close>

fun stringLess :: "jsstring \<Rightarrow> jsstring \<Rightarrow> bool" where
  "stringLess [] [] = False"
| "stringLess [] (y # ys) = True"
| "stringLess (x # xs) [] = False"
| "stringLess (x # xs) (y # ys) =
     (if x < y then True else if y < x then False else stringLess xs ys)"

text \<open>The loop over the first \<open>len\<close> token pairs, as \<open>compareLetters\<close> above.\<close>

fun compareTokens :: "token list \<Rightarrow> token list \<Rightarrow> int option" where
  "compareTokens (Num x # ta) (Num y # tb) =
     (if x < y then Some (- 1) else if x > y then Some 1 else compareTokens ta tb)"
| "compareTokens (Num x # ta) (Str sb # tb) = Some (- 1)"
| "compareTokens (Str sa # ta) (Num y # tb) = Some 1"
| "compareTokens (Str sa # ta) (Str sb # tb) =
     (if stringLess sa sb then Some (- 1)
      else if stringLess sb sa then Some 1
      else compareTokens ta tb)"
| "compareTokens _ _ = None"

definition naturalCompare :: "jsstring \<Rightarrow> jsstring \<Rightarrow> int" where
  "naturalCompare a b =
     (let tokensA = tokenize a; tokensB = tokenize b
      in case compareTokens tokensA tokensB of
           Some r \<Rightarrow> r
         | None \<Rightarrow> int (length tokensA) - int (length tokensB))"

definition compareStrings :: "jsstring \<Rightarrow> jsstring \<Rightarrow> int" where
  "compareStrings str1 str2 =
     (let s1 = removeWhitespace str1; s2 = removeWhitespace str2
      in case (matchLettersDigits s1, matchLettersDigits s2) of
           (Some (letter1, digits1), Some (letter2, digits2)) \<Rightarrow>
             (case compareLetters letter1 letter2 of
                Some r \<Rightarrow> r
              | None \<Rightarrow>
                  if length letter1 < length letter2 then - 1
                  else if length letter1 > length letter2 then 1
                  else
                    let num1 = (if digits1 \<noteq> [] then parseInt digits1 else 0);
                        num2 = (if digits2 \<noteq> [] then parseInt digits2 else 0)
                    in if num1 < num2 then - 1 else if num1 > num2 then 1 else 0)
         | _ \<Rightarrow> naturalCompare s1 s2)"

text \<open>
  \<^verbatim>\<open>Array.prototype.sort(compareFn)\<close>. The sort is stable: for a comparator
  that orders its arguments consistently the result is the one a stable insertion sort
  gives, an element going before the first element it does not compare greater than.
\<close>

fun Array_insert :: "('a \<Rightarrow> 'a \<Rightarrow> int) \<Rightarrow> 'a \<Rightarrow> 'a list \<Rightarrow> 'a list" where
  "Array_insert compareFn x [] = [x]"
| "Array_insert compareFn x (y # ys) =
     (if compareFn x y \<le> 0 then x # y # ys else y # Array_insert compareFn x ys)"

definition Array_sort :: "('a \<Rightarrow> 'a \<Rightarrow> int) \<Rightarrow> 'a list \<Rightarrow> 'a list" where
  "Array_sort compareFn xs = foldr (Array_insert compareFn) xs []"

section \<open>types.ts and the runtime\<close>

text \<open>
  The parsed snapshot, with the fields the broker reads: \<^verbatim>\<open>Host.Name\<close> and
  \<^verbatim>\<open>TimeStamp\<close>. \<^verbatim>\<open>Host\<close> and \<^verbatim>\<open>Name\<close> may be absent from the JSON
  (the code guards both with \<^verbatim>\<open>data.Host?.Name\<close>); the remaining fields of
  \<^verbatim>\<open>Host\<close> and the whole \<^verbatim>\<open>HostState\<close>, which the broker never reads, are the type
  parameters \<open>'h\<close> and \<open>'s\<close>.
\<close>

record 'h Host =
  Name :: "jsstring option"
  info :: 'h

record ('h, 's) MonitorData =
  Host :: "'h Host option"
  State :: 's
  TimeStamp :: int

record HostInfo =
  name :: jsstring
  due_time :: int
  buy_url :: jsstring
  seller :: jsstring
  price :: jsstring

record Env =
  AUTH_SECRET :: jsstring
  ENABLE_TG :: jsstring
  TG_TOKEN :: jsstring
  TG_CHAT_ID :: jsstring

text \<open>
  What the Workers runtime provides and the repository does not define:
  \<^verbatim>\<open>JSON.parse\<close> and \<^verbatim>\<open>JSON.stringify\<close> (at the two types they are used at),
  the gzip \<^verbatim>\<open>DecompressionStream\<close>, \<^verbatim>\<open>TextDecoder.decode\<close>, and
  \<^verbatim>\<open>fetch\<close> on the Bot API's \<^verbatim>\<open>sendMessage\<close> (token, chat id, text; the
  result is \<^verbatim>\<open>resp.ok\<close>). An exception they throw is the left summand.
\<close>

datatype exn = SyntaxError | TypeError

record ('h, 's) runtime =
  JSON_parse :: "jsstring \<Rightarrow> exn + ('h, 's) MonitorData"
  JSON_stringify :: "('h, 's) MonitorData list \<Rightarrow> jsstring"
  JSON_parse_HostInfo :: "jsstring \<Rightarrow> exn + HostInfo"
  JSON_stringify_HostInfo :: "HostInfo \<Rightarrow> jsstring"
  DecompressionStream_gzip :: "byte list \<Rightarrow> exn + byte list"
  TextDecoder_decode :: "byte list \<Rightarrow> jsstring"
  fetch_sendMessage :: "jsstring \<Rightarrow> jsstring \<Rightarrow> jsstring \<Rightarrow> exn + bool"

text \<open>
  \<^verbatim>\<open>new TextEncoder().encode(message)\<close>: UTF-8, a surrogate pair as one code point
  of four bytes, a lone surrogate as U+FFFD.
\<close>

fun TextEncoder_encode :: "jsstring \<Rightarrow> byte list" where
  "TextEncoder_encode [] = []"
| "TextEncoder_encode (c # cs) =
     (if c < 0x80 then ucast c # TextEncoder_encode cs
      else if c < 0x800 then
        (0xC0 OR ucast (drop_bit 6 c)) # (0x80 OR ucast (c AND 0x3F)) # TextEncoder_encode cs
      else if 0xD800 \<le> c \<and> c < 0xDC00 then
        (case cs of
           [] \<Rightarrow> [0xEF, 0xBF, 0xBD]
         | d # ds \<Rightarrow>
             if 0xDC00 \<le> d \<and> d < 0xE000 then
               (let cp = (0x10000 + push_bit 10 (ucast (c AND 0x3FF)) + ucast (d AND 0x3FF) :: 32 word)
                in [0xF0 OR ucast (drop_bit 18 cp),
                    0x80 OR ucast (drop_bit 12 cp AND 0x3F),
                    0x80 OR ucast (drop_bit 6 cp AND 0x3F),
                    0x80 OR ucast (cp AND 0x3F)] @ TextEncoder_encode ds)
             else [0xEF, 0xBF, 0xBD] @ TextEncoder_encode cs)
      else if 0xDC00 \<le> c \<and> c < 0xE000 then [0xEF, 0xBF, 0xBD] @ TextEncoder_encode cs
      else
        (0xE0 OR ucast (drop_bit 12 c)) # (0x80 OR ucast (drop_bit 6 c AND 0x3F))
          # (0x80 OR ucast (c AND 0x3F)) # TextEncoder_encode cs)"

text \<open>\<^verbatim>\<open>decompressGzip\<close> of utils.ts: inflate, then decode the bytes as text.\<close>

definition decompressGzip :: "('h, 's) runtime \<Rightarrow> byte list \<Rightarrow> exn + jsstring" where
  "decompressGzip rt compressed =
     (case DecompressionStream_gzip rt compressed of
        Inl e \<Rightarrow> Inl e
      | Inr result \<Rightarrow> Inr (TextDecoder_decode rt result))"

subsection \<open>Map\<close>

text \<open>
  A JavaScript \<^verbatim>\<open>Map\<close> keeps its entries in insertion order; \<^verbatim>\<open>set\<close> on a
  key that is present replaces the value where it stands. The durable key-value
  storage is modelled by the same operations.
\<close>

definition Map_has :: "('k \<times> 'v) list \<Rightarrow> 'k \<Rightarrow> bool" where
  "Map_has m k \<longleftrightarrow> map_of m k \<noteq> None"

definition Map_get :: "('k \<times> 'v) list \<Rightarrow> 'k \<Rightarrow> 'v option" where
  "Map_get m k = map_of m k"

fun Map_set :: "('k \<times> 'v) list \<Rightarrow> 'k \<Rightarrow> 'v \<Rightarrow> ('k \<times> 'v) list" where
  "Map_set [] k v = [(k, v)]"
| "Map_set ((k', v') # m) k v = (if k' = k then (k, v) # m else (k', v') # Map_set m k v)"

definition Map_delete :: "('k \<times> 'v) list \<Rightarrow> 'k \<Rightarrow> ('k \<times> 'v) list" where
  "Map_delete m k = filter (\<lambda>e. fst e \<noteq> k) m"

definition Map_size :: "('k \<times> 'v) list \<Rightarrow> nat" where
  "Map_size m = length m"

section \<open>monitor-do.ts: the Durable Object\<close>

definition MONITOR_DATA_MAX_ENTRIES :: nat where
  "MONITOR_DATA_MAX_ENTRIES = 500"

definition SNAPSHOT_MAX_AGE_SEC :: int where
  "SNAPSHOT_MAX_AGE_SEC = 300"

definition ALARM_INTERVAL_MS :: int where
  "ALARM_INTERVAL_MS = 20000"

definition OFFLINE_THRESHOLD_SEC :: int where
  "OFFLINE_THRESHOLD_SEC = 60"

text \<open>
  A WebSocket is named by a number. The runtime keeps, for every accepted socket, its
  tags and its serialized attachment; both outlive the object in memory.
\<close>

type_synonym ws = nat

datatype tag = agent | viewer

record AgentAttachment =
  authed :: bool

record socket =
  tags :: "tag list"
  attachment :: "AgentAttachment option"

datatype message = Text jsstring | Binary "byte list"

text \<open>
  The object: its four fields in memory, and what \<^verbatim>\<open>this.state\<close> holds for it
  (the accepted sockets, the durable storage and the pending alarm).
\<close>

record MonitorDO =
  monitorData :: "(jsstring \<times> jsstring) list"
  offlineMap :: "(jsstring \<times> bool) list"
  initialized :: bool
  cachedViewerPayload :: "jsstring option"
  webSockets :: "(ws \<times> socket) list"
  storage :: "(jsstring \<times> jsstring) list"
  alarmTime :: "int option"

text \<open>
  What a handler does to the outside: a frame sent on a socket, a socket closed, a
  message posted to the Telegram Bot API. Console output is not modelled.
\<close>

datatype effect =
    Send ws jsstring
  | Close ws nat jsstring
  | Telegram jsstring jsstring jsstring

subsection \<open>tryDecompressStringMessage\<close>

definition latin1Bytes :: "jsstring \<Rightarrow> byte list" where
  "latin1Bytes message = map (\<lambda>c. ucast (c AND 0xff)) message"

definition tryDecompressStringMessage :: "('h, 's) runtime \<Rightarrow> jsstring \<Rightarrow> jsstring option" where
  "tryDecompressStringMessage rt message =
     (case JSON_parse rt message of
        Inr _ \<Rightarrow> Some message
      | Inl _ \<Rightarrow>
          (case (case decompressGzip rt (latin1Bytes message) of
                   Inl e \<Rightarrow> Inl e
                 | Inr jsonStr \<Rightarrow>
                     (case JSON_parse rt jsonStr of Inl e \<Rightarrow> Inl e | Inr _ \<Rightarrow> Inr jsonStr)) of
             Inr jsonStr \<Rightarrow> Some jsonStr
           | Inl _ \<Rightarrow>
               (case (case decompressGzip rt (TextEncoder_encode message) of
                        Inl e \<Rightarrow> Inl e
                      | Inr jsonStr \<Rightarrow>
                          (case JSON_parse rt jsonStr of Inl e \<Rightarrow> Inl e | Inr _ \<Rightarrow> Inr jsonStr)) of
                  Inr jsonStr \<Rightarrow> Some jsonStr
                | Inl _ \<Rightarrow> None)))"

text \<open>
  The first statement of \<^verbatim>\<open>handleAgentData\<close>, which gives \<^verbatim>\<open>jsonStr\<close>: \<open>Inl\<close>
  is an exception thrown, \<open>Inr None\<close> the early return on a text frame that no strategy
  decodes.
\<close>

definition decodeFrame :: "('h, 's) runtime \<Rightarrow> message \<Rightarrow> exn + jsstring option" where
  "decodeFrame rt message =
     (case message of
        Text s \<Rightarrow> Inr (tryDecompressStringMessage rt s)
      | Binary b \<Rightarrow>
          (case decompressGzip rt b of Inl e \<Rightarrow> Inl e | Inr jsonStr \<Rightarrow> Inr (Some jsonStr)))"

subsection \<open>Reading the store\<close>

text \<open>\<^verbatim>\<open>data.Host?.Name\<close>, and its truthiness: a string is falsy when it is empty.\<close>

definition Host_Name :: "('h, 's) MonitorData \<Rightarrow> jsstring option" where
  "Host_Name data = (case Host data of None \<Rightarrow> None | Some h \<Rightarrow> Name h)"

definition truthy :: "jsstring option \<Rightarrow> bool" where
  "truthy v \<longleftrightarrow> (case v of None \<Rightarrow> False | Some s \<Rightarrow> s \<noteq> [])"

text \<open>The loop of \<open>getAllMonitorData\<close> that fills \<^verbatim>\<open>entries\<close>, then the sort.\<close>

definition getAllMonitorData_entries ::
  "('h, 's) runtime \<Rightarrow> MonitorDO \<Rightarrow> (jsstring \<times> ('h, 's) MonitorData) list" where
  "getAllMonitorData_entries rt this =
     List.map_filter
       (\<lambda>(nm, jsonStr). case JSON_parse rt jsonStr of
                          Inl _ \<Rightarrow> None
                        | Inr m \<Rightarrow> Some (nm, m))
       (monitorData this)"

definition getAllMonitorData :: "('h, 's) runtime \<Rightarrow> MonitorDO \<Rightarrow> ('h, 's) MonitorData list" where
  "getAllMonitorData rt this =
     (let entries = getAllMonitorData_entries rt this
      in map snd (Array_sort (\<lambda>a b. compareStrings (fst a) (fst b)) entries))"

text \<open>The payload and the object, whose cache the call may have filled.\<close>

definition getViewerPayload :: "('h, 's) runtime \<Rightarrow> MonitorDO \<Rightarrow> jsstring \<times> MonitorDO" where
  "getViewerPayload rt this =
     (case cachedViewerPayload this of
        None \<Rightarrow>
          (let monitors = getAllMonitorData rt this;
               payload = JSON_stringify rt monitors
           in (payload, this\<lparr>cachedViewerPayload := Some payload\<rparr>))
      | Some payload \<Rightarrow> (payload, this))"

definition getWebSockets :: "MonitorDO \<Rightarrow> tag \<Rightarrow> ws list" where
  "getWebSockets this t = map fst (filter (\<lambda>(w, s). t \<in> set (tags s)) (webSockets this))"

definition broadcastToViewers :: "('h, 's) runtime \<Rightarrow> MonitorDO \<Rightarrow> MonitorDO \<times> effect list" where
  "broadcastToViewers rt this =
     (let viewers = getWebSockets this viewer
      in if length viewers = 0 then (this, [])
         else
           (let (p, this') = getViewerPayload rt this;
                payload = js ''data: '' @ p
            in (this', map (\<lambda>w. Send w payload) viewers)))"

subsection \<open>handleAgentData\<close>

text \<open>
  The body of the \<^verbatim>\<open>try\<close> block: \<open>Inl\<close> is an exception thrown in it, which the
  \<^verbatim>\<open>catch\<close> of \<open>handleAgentData\<close> swallows. Nothing is changed before the last
  statement that can throw.
\<close>

definition handleAgentData_try ::
  "('h, 's) runtime \<Rightarrow> MonitorDO \<Rightarrow> ws \<Rightarrow> message \<Rightarrow> exn + (MonitorDO \<times> effect list)" where
  "handleAgentData_try rt this w message =
     (case decodeFrame rt message of
        Inl e \<Rightarrow> Inl e
      | Inr None \<Rightarrow> Inr (this, [])
      | Inr (Some jsonStr) \<Rightarrow>
          (case JSON_parse rt jsonStr of
             Inl e \<Rightarrow> Inl e
           | Inr data \<Rightarrow>
               (case Host_Name data of
                  None \<Rightarrow> Inr (this, [])
                | Some nm \<Rightarrow>
                    if nm = [] then Inr (this, [])
                    else if \<not> Map_has (monitorData this) nm
                            \<and> Map_size (monitorData this) \<ge> MONITOR_DATA_MAX_ENTRIES
                    then Inr (this, [])
                    else
                      Inr (broadcastToViewers rt
                             (this\<lparr>monitorData := Map_set (monitorData this) nm jsonStr,
                                   cachedViewerPayload := None\<rparr>)))))"

definition handleAgentData ::
  "('h, 's) runtime \<Rightarrow> MonitorDO \<Rightarrow> ws \<Rightarrow> message \<Rightarrow> MonitorDO \<times> effect list" where
  "handleAgentData rt this w message =
     (case handleAgentData_try rt this w message of
        Inl err \<Rightarrow> (this, [])
      | Inr r \<Rightarrow> r)"

section \<open>telegram.ts: the sweep\<close>

text \<open>The two notification texts, as their UTF-16 code units.\<close>

definition offlineMessage :: "jsstring \<Rightarrow> jsstring" where
  "offlineMessage nm = [0x274C, 0x20] @ nm @ [0x20, 0x79BB, 0x7EBF, 0x4E86]"

definition onlineMessage :: "jsstring \<Rightarrow> jsstring" where
  "onlineMessage nm = [0x2705, 0x20] @ nm @ [0x20, 0x4E0A, 0x7EBF, 0x4E86]"

text \<open>
  \<^verbatim>\<open>sendTGMessage\<close>: one request to the Bot API, unless the token or the chat id
  is missing. A request that throws, or that the API answers with an error, is caught
  and logged inside the function; the caller never sees it.
\<close>

definition sendTGMessage :: "('h, 's) runtime \<Rightarrow> jsstring \<Rightarrow> jsstring \<Rightarrow> jsstring \<Rightarrow> effect list" where
  "sendTGMessage rt token chatId txt =
     (if token = [] \<or> chatId = [] \<or> chatId = js ''0'' then []
      else
        (case fetch_sendMessage rt token chatId txt of
           Inl err \<Rightarrow> [Telegram token chatId txt]
         | Inr ok \<Rightarrow> [Telegram token chatId txt]))"

text \<open>
  The loop of \<^verbatim>\<open>checkOfflineStatus\<close> over the snapshots, threading the offline map
  and the notifications collected so far.
\<close>

fun checkOfflineStatus_loop ::
  "('h, 's) runtime \<Rightarrow> jsstring \<Rightarrow> jsstring \<Rightarrow> int \<Rightarrow> int \<Rightarrow> ('h, 's) MonitorData list
   \<Rightarrow> (jsstring \<times> bool) list \<times> effect list \<Rightarrow> (jsstring \<times> bool) list \<times> effect list" where
  "checkOfflineStatus_loop rt token chatId thresholdSec now [] acc = acc"
| "checkOfflineStatus_loop rt token chatId thresholdSec now (m # monitors) (offline, notifications) =
     (case Host_Name m of
        None \<Rightarrow> checkOfflineStatus_loop rt token chatId thresholdSec now monitors (offline, notifications)
      | Some nm \<Rightarrow>
          if nm = [] then
            checkOfflineStatus_loop rt token chatId thresholdSec now monitors (offline, notifications)
          else
            (let isStale = (TimeStamp m < now - thresholdSec)
             in if isStale then
                  (if Map_get offline nm \<noteq> Some True then
                     checkOfflineStatus_loop rt token chatId thresholdSec now monitors
                       (Map_set offline nm True,
                        notifications @ sendTGMessage rt token chatId (offlineMessage nm))
                   else
                     checkOfflineStatus_loop rt token chatId thresholdSec now monitors
                       (offline, notifications))
                else
                  (if Map_get offline nm = Some True then
                     checkOfflineStatus_loop rt token chatId thresholdSec now monitors
                       (Map_delete offline nm,
                        notifications @ sendTGMessage rt token chatId (onlineMessage nm))
                   else
                     checkOfflineStatus_loop rt token chatId thresholdSec now monitors
                       (offline, notifications))))"

text \<open>
  \<^verbatim>\<open>checkOfflineStatus\<close>; \<open>now\<close> is \<^verbatim>\<open>Math.floor(Date.now() / 1000)\<close>. It
  returns the offline map it has mutated and the notifications it has dispatched.
\<close>

definition checkOfflineStatus ::
  "('h, 's) runtime \<Rightarrow> ('h, 's) MonitorData list \<Rightarrow> (jsstring \<times> bool) list \<Rightarrow> jsstring \<Rightarrow> jsstring \<Rightarrow> int \<Rightarrow> int
   \<Rightarrow> (jsstring \<times> bool) list \<times> effect list" where
  "checkOfflineStatus rt monitors offline token chatId thresholdSec now =
     (if token = [] \<or> chatId = [] \<or> chatId = js ''0'' then (offline, [])
      else checkOfflineStatus_loop rt token chatId thresholdSec now monitors (offline, []))"

section \<open>monitor-do.ts: timer, persistence, RPC and connections\<close>

subsection \<open>Persistence\<close>

definition monitorKey :: "jsstring \<Rightarrow> jsstring" where
  "monitorKey nm = js ''monitor:'' @ nm"

definition hostKey :: "jsstring \<Rightarrow> jsstring" where
  "hostKey nm = js ''host:'' @ nm"

text \<open>
  \<^verbatim>\<open>storage.put(puts)\<close> and \<^verbatim>\<open>storage.delete(keys)\<close> on several keys. The
  storage is the platform's; its calls are taken to succeed, and a key is the string as
  it is (the platform keeps keys as UTF-8, under which two names that differ only in
  lone surrogates would share a key).
\<close>

definition storage_put_all ::
  "(jsstring \<times> jsstring) list \<Rightarrow> (jsstring \<times> jsstring) list \<Rightarrow> (jsstring \<times> jsstring) list" where
  "storage_put_all st puts = foldl (\<lambda>acc (k, v). Map_set acc k v) st puts"

definition storage_delete_all ::
  "(jsstring \<times> jsstring) list \<Rightarrow> jsstring list \<Rightarrow> (jsstring \<times> jsstring) list" where
  "storage_delete_all st ks = filter (\<lambda>e. fst e \<notin> set ks) st"

text \<open>
  \<^verbatim>\<open>storage.list({ prefix })\<close>. The platform returns the entries sorted by key;
  here they come in the order they were first put, and nothing below depends on the
  order.
\<close>

definition storage_list ::
  "(jsstring \<times> jsstring) list \<Rightarrow> jsstring \<Rightarrow> (jsstring \<times> jsstring) list" where
  "storage_list st pfx = filter (\<lambda>e. take (length pfx) (fst e) = pfx) st"

definition persistMonitorSnapshot :: "MonitorDO \<Rightarrow> MonitorDO" where
  "persistMonitorSnapshot this =
     (let puts = map (\<lambda>(nm, jsonStr). (monitorKey nm, jsonStr)) (monitorData this)
      in if length puts > 0 then this\<lparr>storage := storage_put_all (storage this) puts\<rparr>
         else this)"

text \<open>
  The loop of \<^verbatim>\<open>restoreMonitorSnapshot\<close> over the listed entries, threading the
  monitor map and \<^verbatim>\<open>keysToDelete\<close>.
\<close>

fun restore_loop ::
  "('h, 's) runtime \<Rightarrow> int \<Rightarrow> (jsstring \<times> jsstring) list
   \<Rightarrow> (jsstring \<times> jsstring) list \<times> jsstring list \<Rightarrow> (jsstring \<times> jsstring) list \<times> jsstring list" where
  "restore_loop rt now [] acc = acc"
| "restore_loop rt now ((key, val) # entries) (md, keysToDelete) =
     (case JSON_parse rt val of
        Inl _ \<Rightarrow> restore_loop rt now entries (md, keysToDelete @ [key])
      | Inr m \<Rightarrow>
          (case Host_Name m of
             None \<Rightarrow> restore_loop rt now entries (md, keysToDelete @ [key])
           | Some nm \<Rightarrow>
               if nm \<noteq> [] \<and> TimeStamp m > now - SNAPSHOT_MAX_AGE_SEC
               then restore_loop rt now entries (Map_set md nm val, keysToDelete)
               else restore_loop rt now entries (md, keysToDelete @ [key])))"

definition restoreMonitorSnapshot :: "('h, 's) runtime \<Rightarrow> int \<Rightarrow> MonitorDO \<Rightarrow> MonitorDO" where
  "restoreMonitorSnapshot rt nowMs this =
     (let entries = storage_list (storage this) (js ''monitor:'');
          now = nowMs div 1000;
          (md, keysToDelete) = restore_loop rt now entries (monitorData this, [])
      in if length keysToDelete > 0
         then this\<lparr>monitorData := md, storage := storage_delete_all (storage this) keysToDelete\<rparr>
         else this\<lparr>monitorData := md\<rparr>)"

text \<open>
  The constructor: a new object in memory over what the runtime has kept (sockets,
  storage, alarm), restored inside \<^verbatim>\<open>blockConcurrencyWhile\<close> before any event is
  delivered to it.
\<close>

definition MonitorDO_new ::
  "('h, 's) runtime \<Rightarrow> int \<Rightarrow> (ws \<times> socket) list \<Rightarrow> (jsstring \<times> jsstring) list \<Rightarrow> int option
   \<Rightarrow> MonitorDO" where
  "MonitorDO_new rt nowMs socks st al =
     (restoreMonitorSnapshot rt nowMs
        \<lparr>monitorData = [], offlineMap = [], initialized = False, cachedViewerPayload = None,
         webSockets = socks, storage = st, alarmTime = al\<rparr>)
     \<lparr>initialized := True\<rparr>"

subsection \<open>The timer\<close>

definition ensureAlarm :: "int \<Rightarrow> MonitorDO \<Rightarrow> MonitorDO" where
  "ensureAlarm nowMs this =
     (case alarmTime this of
        None \<Rightarrow> this\<lparr>alarmTime := Some (nowMs + ALARM_INTERVAL_MS)\<rparr>
      | Some _ \<Rightarrow> this)"

definition alarm :: "('h, 's) runtime \<Rightarrow> Env \<Rightarrow> int \<Rightarrow> MonitorDO \<Rightarrow> MonitorDO \<times> effect list" where
  "alarm rt env nowMs this =
     (let (this1, sent) =
            (if ENABLE_TG env = js ''true'' \<and> TG_CHAT_ID env \<noteq> [] \<and> TG_CHAT_ID env \<noteq> js ''0''
             then
               (let monitors = getAllMonitorData rt this;
                    (offline, notifications) =
                      checkOfflineStatus rt monitors (offlineMap this) (TG_TOKEN env) (TG_CHAT_ID env)
                        OFFLINE_THRESHOLD_SEC (nowMs div 1000)
                in (this\<lparr>offlineMap := offline\<rparr>, notifications))
             else (this, []));
          this2 = persistMonitorSnapshot this1;
          sockets = webSockets this2
      in if length sockets > 0 \<or> Map_size (monitorData this2) > 0
         then (this2\<lparr>alarmTime := Some (nowMs + ALARM_INTERVAL_MS)\<rparr>, sent)
         else (this2, sent))"

subsection \<open>RPC\<close>

datatype ('h, 's) rpc_data =
    Monitors "('h, 's) MonitorData list"
  | Hosts "HostInfo list"
  | Ok
  | NotFound
  | UnknownAction

record ('h, 's) response =
  status :: nat
  success :: bool
  body :: "('h, 's) rpc_data"

datatype rpc_request =
    fetchData
  | getInfo
  | updateInfo HostInfo
  | deleteHost jsstring
  | other_action

definition rpcFetchData :: "('h, 's) runtime \<Rightarrow> MonitorDO \<Rightarrow> ('h, 's) response" where
  "rpcFetchData rt this =
     \<lparr>status = 200, success = True, body = Monitors (getAllMonitorData rt this)\<rparr>"

definition loadAllHostInfo :: "('h, 's) runtime \<Rightarrow> MonitorDO \<Rightarrow> HostInfo list" where
  "loadAllHostInfo rt this =
     List.map_filter
       (\<lambda>(k, v). case JSON_parse_HostInfo rt v of Inl _ \<Rightarrow> None | Inr h \<Rightarrow> Some h)
       (storage_list (storage this) (js ''host:''))"

definition rpcGetInfo :: "('h, 's) runtime \<Rightarrow> MonitorDO \<Rightarrow> ('h, 's) response" where
  "rpcGetInfo rt this = \<lparr>status = 200, success = True, body = Hosts (loadAllHostInfo rt this)\<rparr>"

definition rpcUpdateInfo ::
  "('h, 's) runtime \<Rightarrow> MonitorDO \<Rightarrow> HostInfo \<Rightarrow> MonitorDO \<times> ('h, 's) response" where
  "rpcUpdateInfo rt this req =
     (this\<lparr>storage := Map_set (storage this) (hostKey (name req)) (JSON_stringify_HostInfo rt req)\<rparr>,
      \<lparr>status = 200, success = True, body = Ok\<rparr>)"

definition rpcDeleteHost :: "MonitorDO \<Rightarrow> jsstring \<Rightarrow> MonitorDO \<times> ('h, 's) response" where
  "rpcDeleteHost this nm =
     (if \<not> Map_has (monitorData this) nm
      then (this, \<lparr>status = 404, success = False, body = NotFound\<rparr>)
      else
        (this\<lparr>monitorData := Map_delete (monitorData this) nm,
              offlineMap := Map_delete (offlineMap this) nm,
              cachedViewerPayload := None,
              storage := Map_delete (storage this) (monitorKey nm)\<rparr>,
         \<lparr>status = 200, success = True, body = Ok\<rparr>))"

definition handleRPC ::
  "('h, 's) runtime \<Rightarrow> MonitorDO \<Rightarrow> rpc_request \<Rightarrow> MonitorDO \<times> ('h, 's) response" where
  "handleRPC rt this req =
     (case req of
        fetchData \<Rightarrow> (this, rpcFetchData rt this)
      | getInfo \<Rightarrow> (this, rpcGetInfo rt this)
      | updateInfo r \<Rightarrow> rpcUpdateInfo rt this r
      | deleteHost nm \<Rightarrow> rpcDeleteHost this nm
      | other_action \<Rightarrow> (this, \<lparr>status = 400, success = False, body = UnknownAction\<rparr>))"

subsection \<open>Connections\<close>

definition handleAgentWebSocket :: "MonitorDO \<Rightarrow> ws \<Rightarrow> MonitorDO" where
  "handleAgentWebSocket this server =
     this\<lparr>webSockets :=
            Map_set (webSockets this) server
              \<lparr>tags = [agent], attachment = Some \<lparr>authed = False\<rparr>\<rparr>\<rparr>"

definition handleViewerWebSocket :: "MonitorDO \<Rightarrow> ws \<Rightarrow> MonitorDO" where
  "handleViewerWebSocket this server =
     this\<lparr>webSockets := Map_set (webSockets this) server \<lparr>tags = [viewer], attachment = None\<rparr>\<rparr>"

definition getTags :: "MonitorDO \<Rightarrow> ws \<Rightarrow> tag list" where
  "getTags this w = (case Map_get (webSockets this) w of None \<Rightarrow> [] | Some s \<Rightarrow> tags s)"

definition deserializeAttachment :: "MonitorDO \<Rightarrow> ws \<Rightarrow> AgentAttachment option" where
  "deserializeAttachment this w =
     (case Map_get (webSockets this) w of None \<Rightarrow> None | Some s \<Rightarrow> attachment s)"

definition serializeAttachment :: "MonitorDO \<Rightarrow> ws \<Rightarrow> AgentAttachment \<Rightarrow> MonitorDO" where
  "serializeAttachment this w a =
     this\<lparr>webSockets := map (\<lambda>(w', s). if w' = w then (w', s\<lparr>attachment := Some a\<rparr>) else (w', s))
                           (webSockets this)\<rparr>"

text \<open>\<^verbatim>\<open>ws.close(code, reason)\<close>: the runtime drops the socket from its list.\<close>

definition ws_close :: "MonitorDO \<Rightarrow> ws \<Rightarrow> nat \<Rightarrow> jsstring \<Rightarrow> MonitorDO \<times> effect list" where
  "ws_close this w code reason =
     (this\<lparr>webSockets := Map_delete (webSockets this) w\<rparr>, [Close w code reason])"

definition webSocketMessage ::
  "('h, 's) runtime \<Rightarrow> Env \<Rightarrow> int \<Rightarrow> MonitorDO \<Rightarrow> ws \<Rightarrow> message \<Rightarrow> MonitorDO \<times> effect list" where
  "webSocketMessage rt env nowMs this w message =
     (let tgs = getTags this w;
          isAgent = (agent \<in> set tgs)
      in if isAgent then
           (let att = (case deserializeAttachment this w of
                         None \<Rightarrow> \<lparr>authed = False\<rparr>
                       | Some a \<Rightarrow> a)
            in if authed att then handleAgentData rt this w message
               else
                 (let txt = (case message of
                               Text s \<Rightarrow> s
                             | Binary b \<Rightarrow> TextDecoder_decode rt b)
                  in if txt \<noteq> AUTH_SECRET env then ws_close this w 1008 (js ''auth failed'')
                     else
                       (ensureAlarm nowMs (serializeAttachment this w \<lparr>authed = True\<rparr>),
                        [Send w (js ''auth success'')])))
         else if viewer \<in> set tgs then
           (let (payload, this') = getViewerPayload rt this
            in (this', [Send w (js ''data: '' @ payload)]))
         else (this, []))"

definition webSocketClose :: "MonitorDO \<Rightarrow> ws \<Rightarrow> MonitorDO" where
  "webSocketClose this w = this"

definition webSocketError :: "MonitorDO \<Rightarrow> ws \<Rightarrow> MonitorDO \<times> effect list" where
  "webSocketError this w = ws_close this w 1011 (js ''internal error'')"

subsection \<open>The object as a state machine\<close>

text \<open>
  Everything the runtime can deliver to the object. \<open>Evicted\<close> is the object being
  dropped from memory and built again by its constructor on the next event; the
  runtime removes a socket from its list when the socket has closed, and clears the
  pending alarm when it fires.
\<close>

datatype event =
    UpgradeAgent ws
  | UpgradeViewer ws
  | Message ws message
  | Closed ws
  | Errored ws
  | Alarm
  | Rpc rpc_request
  | Evicted

definition step ::
  "('h, 's) runtime \<Rightarrow> Env \<Rightarrow> int \<Rightarrow> MonitorDO \<Rightarrow> event \<Rightarrow> MonitorDO \<times> effect list" where
  "step rt env nowMs this ev =
     (case ev of
        UpgradeAgent w \<Rightarrow> (handleAgentWebSocket this w, [])
      | UpgradeViewer w \<Rightarrow> (handleViewerWebSocket this w, [])
      | Message w m \<Rightarrow> webSocketMessage rt env nowMs this w m
      | Closed w \<Rightarrow> (webSocketClose (this\<lparr>webSockets := Map_delete (webSockets this) w\<rparr>) w, [])
      | Errored w \<Rightarrow> webSocketError this w
      | Alarm \<Rightarrow> alarm rt env nowMs (this\<lparr>alarmTime := None\<rparr>)
      | Rpc req \<Rightarrow> (fst (handleRPC rt this req), [])
      | Evicted \<Rightarrow> (MonitorDO_new rt nowMs (webSockets this) (storage this) (alarmTime this), []))"

text \<open>The object as first created: nothing stored, no socket, no alarm.\<close>

definition initial :: "('h, 's) runtime \<Rightarrow> int \<Rightarrow> MonitorDO" where
  "initial rt nowMs = MonitorDO_new rt nowMs [] [] None"

fun run ::
  "('h, 's) runtime \<Rightarrow> Env \<Rightarrow> MonitorDO \<Rightarrow> (int \<times> event) list \<Rightarrow> MonitorDO" where
  "run rt env this [] = this"
| "run rt env this ((nowMs, ev) # evs) = run rt env (fst (step rt env nowMs this ev)) evs"

section \<open>Notions the properties are stated with\<close>

text \<open>
  The snapshot a frame decodes to in \<open>handleAgentData\<close>: the JSON text and its parse,
  or \<open>None\<close> when decoding fails at some stage.
\<close>

definition decodeSnapshot ::
  "('h, 's) runtime \<Rightarrow> message \<Rightarrow> (jsstring \<times> ('h, 's) MonitorData) option" where
  "decodeSnapshot rt message =
     (case decodeFrame rt message of
        Inl _ \<Rightarrow> None
      | Inr None \<Rightarrow> None
      | Inr (Some jsonStr) \<Rightarrow>
          (case JSON_parse rt jsonStr of Inl _ \<Rightarrow> None | Inr data \<Rightarrow> Some (jsonStr, data)))"

text \<open>
  The decode ladder in the words of the specification: three strategies, each giving a
  JSON text or failing, and the first success taken.
\<close>

definition gunzipThenParse :: "('h, 's) runtime \<Rightarrow> byte list \<Rightarrow> jsstring option" where
  "gunzipThenParse rt bytes =
     (case decompressGzip rt bytes of
        Inl _ \<Rightarrow> None
      | Inr jsonStr \<Rightarrow> (case JSON_parse rt jsonStr of Inl _ \<Rightarrow> None | Inr _ \<Rightarrow> Some jsonStr))"

definition strategy1 :: "('h, 's) runtime \<Rightarrow> jsstring \<Rightarrow> jsstring option" where
  "strategy1 rt txt = (case JSON_parse rt txt of Inl _ \<Rightarrow> None | Inr _ \<Rightarrow> Some txt)"

definition strategy2 :: "('h, 's) runtime \<Rightarrow> jsstring \<Rightarrow> jsstring option" where
  "strategy2 rt txt = gunzipThenParse rt (map (\<lambda>c. ucast (c AND 0xff)) txt)"

definition strategy3 :: "('h, 's) runtime \<Rightarrow> jsstring \<Rightarrow> jsstring option" where
  "strategy3 rt txt = gunzipThenParse rt (TextEncoder_encode txt)"

fun firstSuccess :: "'a option list \<Rightarrow> 'a option" where
  "firstSuccess [] = None"
| "firstSuccess (None # rest) = firstSuccess rest"
| "firstSuccess (Some x # rest) = Some x"



text \<open>
  The invariant of the monitor store: at most \<open>MONITOR_DATA_MAX_ENTRIES\<close> entries,
  one per key, and every value parses to a snapshot whose \<^verbatim>\<open>Host.Name\<close> is its key.
\<close>

definition store_inv :: "('h, 's) runtime \<Rightarrow> MonitorDO \<Rightarrow> bool" where
  "store_inv rt this \<longleftrightarrow>
     Map_size (monitorData this) \<le> MONITOR_DATA_MAX_ENTRIES
     \<and> distinct (map fst (monitorData this))
     \<and> (\<forall>(k, v) \<in> set (monitorData this).
           k \<noteq> [] \<and> (\<exists>data. JSON_parse rt v = Inr data \<and> Host_Name data = Some k))"

text \<open>
  What holds of the durable storage while the object lives: one value per key, and
  every snapshot entry \<^verbatim>\<open>monitor:<name>\<close> was written by \<open>persistMonitorSnapshot\<close> for
  a name that is still in the store.
\<close>

definition durable_inv :: "('h, 's) runtime \<Rightarrow> MonitorDO \<Rightarrow> bool" where
  "durable_inv rt this \<longleftrightarrow>
     distinct (map fst (storage this))
     \<and> (\<forall>(key, v) \<in> set (storage_list (storage this) (js ''monitor:'')).
           \<exists>k data. key = monitorKey k \<and> Map_has (monitorData this) k
                    \<and> JSON_parse rt v = Inr data \<and> Host_Name data = Some k)"


subsection \<open>A small runtime to evaluate the definitions on\<close>

text \<open>
  Snapshots are written \<^verbatim>\<open>{name:seconds\<close>; the ``gzip'' of a text is the text after
  the two magic bytes; bytes decode to text one code unit each.
\<close>

definition example_JSON_parse :: "jsstring \<Rightarrow> exn + (unit, unit) MonitorData" where
  "example_JSON_parse s =
     (case s of
        [] \<Rightarrow> Inl SyntaxError
      | c # r \<Rightarrow>
          if c = 0x7B then
            Inr \<lparr>Host = Some \<lparr>Name = Some (takeWhile (\<lambda>x. x \<noteq> 0x3A) r), info = ()\<rparr>,
                 State = (),
                 TimeStamp = int (mathInt (drop 1 (dropWhile (\<lambda>x. x \<noteq> 0x3A) r)))\<rparr>
          else Inl SyntaxError)"

definition example_runtime :: "(unit, unit) runtime" where
  "example_runtime =
     \<lparr>JSON_parse = example_JSON_parse,
      JSON_stringify =
        (\<lambda>ms. concat (map (\<lambda>m. (case Host_Name m of None \<Rightarrow> [] | Some n \<Rightarrow> n) @ js '';'') ms)),
      JSON_parse_HostInfo = (\<lambda>s. Inl SyntaxError),
      JSON_stringify_HostInfo = name,
      DecompressionStream_gzip =
        (\<lambda>bytes. if take 2 bytes = [0x1F, 0x8B] then Inr (drop 2 bytes) else Inl TypeError),
      TextDecoder_decode = map ucast,
      fetch_sendMessage = (\<lambda>token chatId txt. Inr True)\<rparr>"

definition example_env :: Env where
  "example_env =
     \<lparr>AUTH_SECRET = js ''secret'', ENABLE_TG = js ''true'', TG_TOKEN = js ''token'',
      TG_CHAT_ID = js ''42''\<rparr>"

text \<open>
  An object with one producer connected and authenticated: socket 1 is accepted and
  sends the secret.
\<close>

definition example_authed :: MonitorDO where
  "example_authed =
     run example_runtime example_env (initial example_runtime 0)
       [(0, UpgradeAgent 1), (0, Message 1 (Text (js ''secret'')))]"

text \<open>An object with one producer connected and not yet authenticated.\<close>

definition example_connected :: MonitorDO where
  "example_connected =
     run example_runtime example_env (initial example_runtime 0) [(0, UpgradeAgent 1)]"

text \<open>The same object after the producer has sent the snapshot of \<open>HK1\<close>.\<close>

definition example_stored :: MonitorDO where
  "example_stored =
     run example_runtime example_env (initial example_runtime 0)
       [(0, UpgradeAgent 1), (0, Message 1 (Text (js ''secret''))),
        (1000, Message 1 (Text (js ''{HK1:100'')))]"

text \<open>
  The sweep in the words of the specification: the notification text a snapshot causes,
  given the offline flags: an offline notification when it is stale and not flagged, an
  online notification when it is not stale and flagged, none otherwise.
\<close>

definition sweepNotification ::
  "int \<Rightarrow> int \<Rightarrow> (jsstring \<times> bool) list \<Rightarrow> ('h, 's) MonitorData \<Rightarrow> jsstring option" where
  "sweepNotification thresholdSec now offline m =
     (case Host_Name m of
        None \<Rightarrow> None
      | Some nm \<Rightarrow>
          if nm = [] then None
          else if TimeStamp m < now - thresholdSec \<and> Map_get offline nm \<noteq> Some True
          then Some (offlineMessage nm)
          else if TimeStamp m \<ge> now - thresholdSec \<and> Map_get offline nm = Some True
          then Some (onlineMessage nm)
          else None)"

text \<open>
  The name a durably stored value is restored under: its \<^verbatim>\<open>Host.Name\<close> when it
  parses, has a name and is younger than the retention window; \<open>None\<close> otherwise.
\<close>

definition restoredName :: "('h, 's) runtime \<Rightarrow> int \<Rightarrow> jsstring \<Rightarrow> jsstring option" where
  "restoredName rt now val =
     (case JSON_parse rt val of
        Inl _ \<Rightarrow> None
      | Inr m \<Rightarrow>
          (case Host_Name m of
             None \<Rightarrow> None
           | Some nm \<Rightarrow>
               if nm \<noteq> [] \<and> TimeStamp m > now - SNAPSHOT_MAX_AGE_SEC then Some nm else None))"

text \<open>One iteration of the loop of \<open>checkOfflineStatus\<close>, as a function of its own.\<close>

definition sweepStep ::
  "('h, 's) runtime \<Rightarrow> jsstring \<Rightarrow> jsstring \<Rightarrow> int \<Rightarrow> int \<Rightarrow> ('h, 's) MonitorData
   \<Rightarrow> (jsstring \<times> bool) list \<times> effect list \<Rightarrow> (jsstring \<times> bool) list \<times> effect list" where
  "sweepStep rt token chatId thresholdSec now m acc =
     (case Host_Name m of
        None \<Rightarrow> acc
      | Some nm \<Rightarrow>
          if nm = [] then acc
          else if TimeStamp m < now - thresholdSec then
            (if Map_get (fst acc) nm \<noteq> Some True
             then (Map_set (fst acc) nm True,
                   snd acc @ sendTGMessage rt token chatId (offlineMessage nm))
             else acc)
          else
            (if Map_get (fst acc) nm = Some True
             then (Map_delete (fst acc) nm,
                   snd acc @ sendTGMessage rt token chatId (onlineMessage nm))
             else acc))"

text \<open>The same object after the producer has sent a newer snapshot of \<open>HK1\<close>.\<close>

definition example_refreshed :: MonitorDO where
  "example_refreshed =
     run example_runtime example_env example_stored [(161000, Message 1 (Text (js ''{HK1:161'')))]"

text \<open>What one listed entry does to the monitor map in \<open>restore_loop\<close>.\<close>

definition loadEntry ::
  "('h, 's) runtime \<Rightarrow> int \<Rightarrow> (jsstring \<times> jsstring) list \<Rightarrow> jsstring \<times> jsstring
   \<Rightarrow> (jsstring \<times> jsstring) list" where
  "loadEntry rt now md e =
     (case restoredName rt now (snd e) of None \<Rightarrow> md | Some nm \<Rightarrow> Map_set md nm (snd e))"

text \<open>The \<^verbatim>\<open>Host.Name\<close> of the snapshot a frame decodes to.\<close>

definition frameName :: "('h, 's) runtime \<Rightarrow> message \<Rightarrow> jsstring option" where
  "frameName rt message =
     (case decodeSnapshot rt message of None \<Rightarrow> None | Some (jsonStr, data) \<Rightarrow> Host_Name data)"

text \<open>A producer's frames handled one after the other.\<close>

definition putAll :: "('h, 's) runtime \<Rightarrow> MonitorDO \<Rightarrow> ws \<Rightarrow> message list \<Rightarrow> MonitorDO" where
  "putAll rt this w messages = foldl (\<lambda>t m. fst (handleAgentData rt t w m)) this messages"

text \<open>
  A durable storage with a snapshot 400 seconds old and one 100 seconds old at second
  500, an entry that does not parse, and a metadata entry.
\<close>

definition example_storage :: "(jsstring \<times> jsstring) list" where
  "example_storage =
     [(js ''monitor:OLD'', js ''{OLD:100''), (js ''monitor:NEW'', js ''{NEW:400''),
      (js ''monitor:BAD'', js ''garbage''), (js ''host:NEW'', js ''meta'')]"

text \<open>
  Five hundred and one producer frames with the distinct names \<^verbatim>\<open>A\<close>, \<^verbatim>\<open>AA\<close>, \<^verbatim>\<open>AAA\<close>, \<dots>
  for the small runtime, and the object after a producer has sent them all to a fresh
  object.
\<close>

definition example_frame :: "nat \<Rightarrow> message" where
  "example_frame i = Text (js ''{'' @ replicate (Suc i) 0x41 @ js '':1'')"

definition example_frames :: "message list" where
  "example_frames = map example_frame [0..<501]"

definition example_full :: MonitorDO where
  "example_full = putAll example_runtime (initial example_runtime 0) 1 example_frames"

text \<open>
  \<^verbatim>\<open>new TextDecoder().decode(bytes)\<close> on ASCII bytes after an optional byte order
  mark: the decoder is built with \<^verbatim>\<open>ignoreBOM\<close> false, so a leading \<open>EF BB BF\<close> is
  dropped; a byte below \<open>80\<close> is its code unit. Other bytes, which the examples do not
  use, are given as U+FFFD. The small runtime with this decoder.
\<close>

definition TextDecoder_ascii :: "byte list \<Rightarrow> jsstring" where
  "TextDecoder_ascii bytes =
     map (\<lambda>b. if b < 0x80 then ucast b else 0xFFFD)
       (if take 3 bytes = [0xEF, 0xBB, 0xBF] then drop 3 bytes else bytes)"

definition bom_runtime :: "(unit, unit) runtime" where
  "bom_runtime = example_runtime\<lparr>TextDecoder_decode := TextDecoder_ascii\<rparr>"

text \<open>
  The object holding the stale snapshot of \<open>HK1\<close> after the alarm at second 161, and
  the same object evicted and built again at second 171.
\<close>

definition example_swept :: MonitorDO where
  "example_swept = fst (step example_runtime example_env 161000 example_stored Alarm)"

definition example_woken :: MonitorDO where
  "example_woken = fst (step example_runtime example_env 171000 example_swept Evicted)"

text \<open>
  The name comparator in the words of the specification. Two values compared: \<open>- 1\<close>,
  \<open>0\<close> or \<open>1\<close>.
\<close>

definition order3 :: "'a::linorder \<Rightarrow> 'a \<Rightarrow> int" where
  "order3 x y = (if x < y then - 1 else if y < x then 1 else 0)"

text \<open>
  Two sequences compared element by element; when one is a prefix of the other, the
  shorter sorts first.
\<close>

fun lexCompare :: "('a \<Rightarrow> 'a \<Rightarrow> int) \<Rightarrow> 'a list \<Rightarrow> 'a list \<Rightarrow> int" where
  "lexCompare c [] [] = 0"
| "lexCompare c [] (y # ys) = - 1"
| "lexCompare c (x # xs) [] = 1"
| "lexCompare c (x # xs) (y # ys) = (if c x y = 0 then lexCompare c xs ys else c x y)"

text \<open>
  Two tokens of the natural comparator: digit runs numerically, other runs character by
  character by code, a digit run before any other run.
\<close>

fun tokenOrder :: "token \<Rightarrow> token \<Rightarrow> int" where
  "tokenOrder (Num x) (Num y) = order3 x y"
| "tokenOrder (Num x) (Str sb) = - 1"
| "tokenOrder (Str sa) (Num y) = 1"
| "tokenOrder (Str sa) (Str sb) = lexCompare order3 sa sb"

text \<open>The numeric suffix of an identity; an absent suffix counts as 0.\<close>

definition suffixValue :: "jsstring \<Rightarrow> enat" where
  "suffixValue digits = (if digits = [] then 0 else parseInt digits)"

text \<open>
  Whitespace is stripped; when both identities are letters then digits, the letters are
  compared, then the suffixes; otherwise the token sequences are compared.
\<close>

definition nameOrder :: "jsstring \<Rightarrow> jsstring \<Rightarrow> int" where
  "nameOrder a b =
     (let s1 = removeWhitespace a; s2 = removeWhitespace b
      in case (matchLettersDigits s1, matchLettersDigits s2) of
           (Some (letters1, digits1), Some (letters2, digits2)) \<Rightarrow>
             if lexCompare order3 letters1 letters2 = 0
             then order3 (suffixValue digits1) (suffixValue digits2)
             else lexCompare order3 letters1 letters2
         | _ \<Rightarrow> lexCompare tokenOrder (tokenize s1) (tokenize s2))"

text \<open>
  A key of an identity whose order under \<open>lexCompare tokenOrder\<close> is the comparator's:
  letters and suffix value for an identity of the letters-then-digits shape, the tokens
  otherwise.
\<close>

definition sortKey :: "jsstring \<Rightarrow> token list" where
  "sortKey a =
     (let s = removeWhitespace a
      in case matchLettersDigits s of
           Some (letters, digits) \<Rightarrow> [Str letters, Num (suffixValue digits)]
         | None \<Rightarrow> tokenize s)"

text \<open>
  A store that was sent the identities \<open>HK10\<close>, \<open>HK2\<close>, \<open>HK1\<close>, \<open>US1\<close> in this
  order, and one that was sent two identities whose suffixes are above \<open>2 ^ 53\<close>.
\<close>

definition example_four :: MonitorDO where
  "example_four =
     putAll example_runtime (initial example_runtime 0) 1
       [Text (js ''{HK10:1''), Text (js ''{HK2:1''), Text (js ''{HK1:1''), Text (js ''{US1:1'')]"

definition example_big :: MonitorDO where
  "example_big =
     putAll example_runtime (initial example_runtime 0) 1
       [Text (js ''{HK9007199254740993:1''), Text (js ''{HK9007199254740992:1'')]"

section \<open>The comparator is reflexive and antisymmetric\<close>

lemma Number_value_small: "n < 2 ^ 53 \<Longrightarrow> Number_value n = enat n"
proof -
  assume small: "n < 2 ^ 53"
  have "(2 :: nat) ^ 53 < 2 ^ 1024"
    by (rule power_strict_increasing) simp_all
  with small have "n < 2 ^ 1024"
    by (rule less_trans)
  with small show ?thesis
    by (simp add: Number_value_def lostBits.simps)
qed

lemma compareLetters_refl: "compareLetters l l = None"
  by (induction l) auto

lemma compareLetters_flip:
  "compareLetters b a = map_option uminus (compareLetters a b)"
  by (induction a b rule: compareLetters.induct) auto

lemma stringLess_irrefl: "\<not> stringLess s s"
  by (induction s) auto

lemma stringLess_asym: "stringLess a b \<Longrightarrow> \<not> stringLess b a"
  by (induction a b rule: stringLess.induct) (auto split: if_splits)

lemma compareTokens_refl: "compareTokens t t = None"
proof (induction t)
  case Nil
  show ?case by simp
next
  case (Cons x t)
  then show ?case by (cases x) (simp_all add: stringLess_irrefl)
qed

lemma compareTokens_flip:
  "compareTokens b a = map_option uminus (compareTokens a b)"
  by (induction a b rule: compareTokens.induct) (auto dest: stringLess_asym)

lemma naturalCompare_refl: "naturalCompare a a = 0"
  by (simp add: naturalCompare_def compareTokens_refl)

lemma naturalCompare_flip: "naturalCompare b a = - naturalCompare a b"
  by (simp add: naturalCompare_def Let_def compareTokens_flip [of "tokenize b" "tokenize a"]
      split: option.splits)

lemma compareStrings_refl: "compareStrings a a = 0"
  by (simp add: compareStrings_def Let_def compareLetters_refl naturalCompare_refl
      split: option.splits)

lemma compareStrings_flip: "compareStrings b a = - compareStrings a b"
proof (cases "matchLettersDigits (removeWhitespace a)")
  case None
  then show ?thesis
    by (simp add: compareStrings_def Let_def naturalCompare_flip [of "removeWhitespace b"]
        split: option.splits prod.splits)
next
  case a: (Some pa)
  show ?thesis
  proof (cases "matchLettersDigits (removeWhitespace b)")
    case None
    then show ?thesis
      by (simp add: compareStrings_def Let_def naturalCompare_flip [of "removeWhitespace b"]
          split: option.splits prod.splits)
  next
    case b: (Some pb)
    obtain l1 d1 where pa: "pa = (l1, d1)" by (cases pa)
    obtain l2 d2 where pb: "pb = (l2, d2)" by (cases pb)
    show ?thesis
      using compareLetters_flip [of l2 l1]
      by (cases "compareLetters l1 l2") (auto simp: compareStrings_def Let_def a b pa pb)
  qed
qed

lemma compareStrings_whitespace:
  "compareStrings a b = compareStrings (removeWhitespace a) (removeWhitespace b)"
  by (simp add: compareStrings_def removeWhitespace_def)

text \<open>
  C10. The name comparator gives 0 on equal arguments, the sign of
  \<open>compareStrings a b\<close> is the opposite of the sign of \<open>compareStrings b a\<close>, and
  two identities that differ only in whitespace (they are equal once their whitespace
  characters are removed) compare as 0.
\<close>

theorem C10_compareStrings_reflexive_antisymmetric:
  "compareStrings a a = 0
   \<and> sgn (compareStrings a b) = - sgn (compareStrings b a)
   \<and> (removeWhitespace a = removeWhitespace b \<longrightarrow> compareStrings a b = 0)"
proof (intro conjI impI)
  show "compareStrings a a = 0" by (rule compareStrings_refl)
  show "sgn (compareStrings a b) = - sgn (compareStrings b a)"
    by (simp add: compareStrings_flip [of b a])
  assume "removeWhitespace a = removeWhitespace b"
  then show "compareStrings a b = 0"
    using compareStrings_whitespace [of a b] by (simp add: compareStrings_refl)
qed

theorem C10_witness:
  "removeWhitespace (js ''HK 1'') = removeWhitespace (js ''H K1'')
   \<and> compareStrings (js ''HK 1'') (js ''HK 1'') = 0
   \<and> sgn (compareStrings (js ''HK 1'') (js ''H K1'')) = - sgn (compareStrings (js ''H K1'') (js ''HK 1''))
   \<and> compareStrings (js ''HK 1'') (js ''H K1'') = 0"
proof -
  have h: "removeWhitespace (js ''HK 1'') = removeWhitespace (js ''H K1'')"
    by (simp add: js_def removeWhitespace_def isWhiteSpace_def)
  show ?thesis
    using C10_compareStrings_reflexive_antisymmetric [of "js ''HK 1''" "js ''H K1''"] h
    by blast
qed

section \<open>The small runtime, evaluated\<close>




lemma example_parse_HK1:
  "JSON_parse example_runtime (js ''{HK1:100'')
   = Inr \<lparr>Host = Some \<lparr>Name = Some (js ''HK1''), info = ()\<rparr>, State = (), TimeStamp = 100\<rparr>"
  by (simp add: example_runtime_def example_JSON_parse_def js_def mathInt_def)

lemma example_garbage:
  "firstSuccess [strategy1 example_runtime (js ''garbage''),
                 strategy2 example_runtime (js ''garbage''),
                 strategy3 example_runtime (js ''garbage'')] = None"
  by (simp add: strategy1_def strategy2_def strategy3_def gunzipThenParse_def decompressGzip_def
      example_runtime_def example_JSON_parse_def js_def)

lemma example_initial:
  "initial example_runtime 0 =
     \<lparr>monitorData = [], offlineMap = [], initialized = True, cachedViewerPayload = None,
      webSockets = [], storage = [], alarmTime = None\<rparr>"
  by (simp add: initial_def MonitorDO_new_def restoreMonitorSnapshot_def storage_list_def)

lemma example_authed_eq:
  "example_authed =
     \<lparr>monitorData = [], offlineMap = [], initialized = True, cachedViewerPayload = None,
      webSockets = [(1, \<lparr>tags = [agent], attachment = Some \<lparr>authed = True\<rparr>\<rparr>)],
      storage = [], alarmTime = Some 20000\<rparr>"
  by (simp add: example_authed_def example_initial step_def handleAgentWebSocket_def
      webSocketMessage_def getTags_def deserializeAttachment_def Map_get_def example_env_def
      serializeAttachment_def ensureAlarm_def ALARM_INTERVAL_MS_def)

lemma example_authed_socket:
  "agent \<in> set (getTags example_authed 1)"
  "deserializeAttachment example_authed 1 = Some \<lparr>authed = True\<rparr>"
  by (simp_all add: example_authed_eq getTags_def deserializeAttachment_def Map_get_def)

section \<open>Decoding a producer frame\<close>

lemma tryDecompress_firstSuccess:
  "tryDecompressStringMessage rt txt
   = firstSuccess [strategy1 rt txt, strategy2 rt txt, strategy3 rt txt]"
  by (simp add: tryDecompressStringMessage_def strategy1_def strategy2_def strategy3_def
      gunzipThenParse_def latin1Bytes_def split: sum.splits)

text \<open>\<open>handleAgentData\<close> by what the frame decodes to.\<close>

lemma handleAgentData_decoded:
  "handleAgentData rt this w message =
     (case decodeSnapshot rt message of
        None \<Rightarrow> (this, [])
      | Some (jsonStr, data) \<Rightarrow>
          (case Host_Name data of
             None \<Rightarrow> (this, [])
           | Some nm \<Rightarrow>
               if nm = [] then (this, [])
               else if \<not> Map_has (monitorData this) nm
                       \<and> Map_size (monitorData this) \<ge> MONITOR_DATA_MAX_ENTRIES
               then (this, [])
               else broadcastToViewers rt
                      (this\<lparr>monitorData := Map_set (monitorData this) nm jsonStr,
                            cachedViewerPayload := None\<rparr>)))"
  by (simp add: handleAgentData_def handleAgentData_try_def decodeSnapshot_def
      split: sum.splits option.splits)






section \<open>Frames that are dropped\<close>

lemma webSocketMessage_authed:
  assumes "agent \<in> set (getTags this w)" and "deserializeAttachment this w = Some a"
    and "authed a"
  shows "webSocketMessage rt env nowMs this w message = handleAgentData rt this w message"
  using assms by (simp add: webSocketMessage_def)

text \<open>
  C9. On an authenticated producer connection, a message that fails to decode at some
  stage, or that decodes to JSON without a (non-empty) \<^verbatim>\<open>Host.Name\<close>, is dropped:
  the handler returns the object unchanged (monitor store, cached payload and the
  socket list, so the connection stays open) and has no effect outside (no frame sent
  to a viewer, no socket closed). The handler is a total function: no exception leaves
  it.
\<close>

theorem C9_undecodable_or_nameless_dropped:
  assumes "agent \<in> set (getTags this w)"
    and "deserializeAttachment this w = Some a" and "authed a"
    and "decodeSnapshot rt message = None
         \<or> (\<exists>jsonStr data. decodeSnapshot rt message = Some (jsonStr, data)
                \<and> \<not> truthy (Host_Name data))"
  shows "webSocketMessage rt env nowMs this w message = (this, [])"
  using assms
  by (auto simp: webSocketMessage_authed handleAgentData_decoded truthy_def split: option.splits)

lemma example_decode_garbage: "decodeSnapshot example_runtime (Text (js ''garbage'')) = None"
  by (simp add: decodeSnapshot_def decodeFrame_def tryDecompress_firstSuccess example_garbage)

lemma example_decode_nameless:
  "decodeSnapshot example_runtime (Text (js ''{:100''))
   = Some (js ''{:100'', \<lparr>Host = Some \<lparr>Name = Some [], info = ()\<rparr>, State = (), TimeStamp = 100\<rparr>)"
  by (simp add: decodeSnapshot_def decodeFrame_def tryDecompressStringMessage_def
      example_runtime_def example_JSON_parse_def js_def mathInt_def)

theorem C9_witness:
  "agent \<in> set (getTags example_authed 1)
   \<and> deserializeAttachment example_authed 1 = Some \<lparr>authed = True\<rparr>
   \<and> decodeSnapshot example_runtime (Text (js ''garbage'')) = None
   \<and> webSocketMessage example_runtime example_env 5000 example_authed 1 (Text (js ''garbage''))
       = (example_authed, [])
   \<and> decodeSnapshot example_runtime (Text (js ''{:100''))
       = Some (js ''{:100'', \<lparr>Host = Some \<lparr>Name = Some [], info = ()\<rparr>, State = (), TimeStamp = 100\<rparr>)
   \<and> \<not> truthy (Host_Name \<lparr>Host = Some \<lparr>Name = Some [], info = ()\<rparr>, State = (), TimeStamp = 100\<rparr>)
   \<and> webSocketMessage example_runtime example_env 5000 example_authed 1 (Text (js ''{:100''))
       = (example_authed, [])"
  using C9_undecodable_or_nameless_dropped [of example_authed 1 "\<lparr>authed = True\<rparr>"
      example_runtime "Text (js ''garbage'')" example_env 5000]
    C9_undecodable_or_nameless_dropped [of example_authed 1 "\<lparr>authed = True\<rparr>"
      example_runtime "Text (js ''{:100'')" example_env 5000]
    example_authed_socket example_decode_garbage example_decode_nameless
  by (simp add: truthy_def Host_Name_def)

section \<open>Map and socket lemmas\<close>

lemma map_of_Map_set: "map_of (Map_set m k v) k' = (if k' = k then Some v else map_of m k')"
  by (induction m) auto

lemma map_of_Map_delete: "map_of (Map_delete m k) k' = (if k' = k then None else map_of m k')"
  by (induction m) (auto simp: Map_delete_def)

lemma keys_Map_set: "map fst (Map_set m k v) = (if k \<in> set (map fst m) then map fst m else map fst m @ [k])"
  by (induction m) (force+)

lemma set_keys_Map_set: "fst ` set (Map_set m k v) = insert k (fst ` set m)"
  by (induction m) (force+)

lemma distinct_Map_set: "distinct (map fst m) \<Longrightarrow> distinct (map fst (Map_set m k v))"
  by (simp add: keys_Map_set)

lemma length_Map_set: "length (Map_set m k v) = (if k \<in> set (map fst m) then length m else Suc (length m))"
  by (induction m) (force+)

lemma keys_Map_delete: "map fst (Map_delete m k) = filter (\<lambda>k'. k' \<noteq> k) (map fst m)"
  by (induction m) (auto simp: Map_delete_def)

lemma distinct_Map_delete: "distinct (map fst m) \<Longrightarrow> distinct (map fst (Map_delete m k))"
  by (simp add: keys_Map_delete)

lemma Map_has_iff: "Map_has m k \<longleftrightarrow> k \<in> fst ` set m"
  by (simp add: Map_has_def map_of_eq_None_iff)

lemma map_of_attach:
  "map_of (map (\<lambda>(w', s). if w' = w then (w', s\<lparr>attachment := Some a\<rparr>) else (w', s)) socks) w'
   = (if w' = w then map_option (\<lambda>s. s\<lparr>attachment := Some a\<rparr>) (map_of socks w')
      else map_of socks w')"
  by (induction socks) auto

lemma getTags_serializeAttachment [simp]:
  "getTags (serializeAttachment this w a) w' = getTags this w'"
  by (simp add: getTags_def serializeAttachment_def Map_get_def map_of_attach split: option.splits)

lemma deserialize_serializeAttachment:
  "agent \<in> set (getTags this w) \<Longrightarrow> deserializeAttachment (serializeAttachment this w a) w = Some a"
  by (cases "map_of (webSockets this) w") (auto simp: getTags_def deserializeAttachment_def serializeAttachment_def Map_get_def
      map_of_attach split: option.splits)

lemma restore_loop_fields:
  "restoreMonitorSnapshot rt nowMs this = this\<lparr>monitorData := monitorData (restoreMonitorSnapshot rt nowMs this), storage := storage (restoreMonitorSnapshot rt nowMs this)\<rparr>"
  by (simp add: restoreMonitorSnapshot_def Let_def split: prod.splits)

lemma webSockets_restore [simp]:
  "webSockets (restoreMonitorSnapshot rt nowMs this) = webSockets this"
  by (simp add: restoreMonitorSnapshot_def Let_def split: prod.splits)

lemma webSockets_new [simp]: "webSockets (MonitorDO_new rt nowMs socks st al) = socks"
  by (simp add: MonitorDO_new_def)

lemma getTags_cong: "webSockets a = webSockets b \<Longrightarrow> getTags a w = getTags b w"
  by (simp add: getTags_def)

lemma deserializeAttachment_cong:
  "webSockets a = webSockets b \<Longrightarrow> deserializeAttachment a w = deserializeAttachment b w"
  by (simp add: deserializeAttachment_def)

section \<open>Authentication of a producer connection\<close>

text \<open>
  Claim C4, amended: the comparison is of texts, not of bytes. A producer connection is
  accepted in the unauthenticated state (tag \<open>agent\<close>, attachment \<open>authed = False\<close>).
  On such a connection the text of the message (for a binary message, what
  \<^verbatim>\<open>TextDecoder.decode\<close> makes of its bytes) is compared with the configured secret,
  code unit for code unit. When it differs, the socket is closed with code 1008 and nothing else
  happens: no frame is sent and the rest of the object is unchanged. When it is equal,
  exactly one frame \<open>auth success\<close> is sent, \<open>authed = True\<close> is written to the
  socket's attachment, an alarm is pending afterwards, and the monitor store, the offline
  map, the cached payload and the storage are unchanged, so the message is not treated as
  data. The attachment is kept by the runtime: after the object has been evicted and
  built again, it is read back as \<open>authed = True\<close> and the next message of the socket
  goes to \<open>handleAgentData\<close>.
\<close>

theorem C4_first_message_authenticates:
  assumes ag: "agent \<in> set (getTags this w)"
    and un: "\<not> authed (case deserializeAttachment this w of None \<Rightarrow> \<lparr>authed = False\<rparr> | Some a \<Rightarrow> a)"
  shows
    "agent \<in> set (getTags (handleAgentWebSocket this0 w0) w0)
     \<and> deserializeAttachment (handleAgentWebSocket this0 w0) w0 = Some \<lparr>authed = False\<rparr>
     \<and> ((case message of Text s \<Rightarrow> s | Binary b \<Rightarrow> TextDecoder_decode rt b) \<noteq> AUTH_SECRET env
          \<longrightarrow> webSocketMessage rt env nowMs this w message
              = (this\<lparr>webSockets := Map_delete (webSockets this) w\<rparr>,
                 [Close w 1008 (js ''auth failed'')]))
     \<and> ((case message of Text s \<Rightarrow> s | Binary b \<Rightarrow> TextDecoder_decode rt b) = AUTH_SECRET env
          \<longrightarrow> (let (this', out) = webSocketMessage rt env nowMs this w message;
                   woken = fst (step rt env laterMs this' Evicted)
               in out = [Send w (js ''auth success'')]
                  \<and> deserializeAttachment this' w = Some \<lparr>authed = True\<rparr>
                  \<and> agent \<in> set (getTags this' w)
                  \<and> alarmTime this' \<noteq> None
                  \<and> monitorData this' = monitorData this
                  \<and> offlineMap this' = offlineMap this
                  \<and> cachedViewerPayload this' = cachedViewerPayload this
                  \<and> storage this' = storage this
                  \<and> deserializeAttachment woken w = Some \<lparr>authed = True\<rparr>
                  \<and> webSocketMessage rt env laterMs woken w next_message
                      = handleAgentData rt woken w next_message))"
proof (intro conjI impI)
  show "agent \<in> set (getTags (handleAgentWebSocket this0 w0) w0)"
    by (simp add: getTags_def handleAgentWebSocket_def Map_get_def map_of_Map_set)
  show "deserializeAttachment (handleAgentWebSocket this0 w0) w0 = Some \<lparr>authed = False\<rparr>"
    by (simp add: deserializeAttachment_def handleAgentWebSocket_def Map_get_def map_of_Map_set)
next
  assume "(case message of Text s \<Rightarrow> s | Binary b \<Rightarrow> TextDecoder_decode rt b) \<noteq> AUTH_SECRET env"
  with ag un show "webSocketMessage rt env nowMs this w message
              = (this\<lparr>webSockets := Map_delete (webSockets this) w\<rparr>,
                 [Close w 1008 (js ''auth failed'')])"
    by (simp add: webSocketMessage_def ws_close_def)
next
  assume eq: "(case message of Text s \<Rightarrow> s | Binary b \<Rightarrow> TextDecoder_decode rt b) = AUTH_SECRET env"
  define this' where "this' = ensureAlarm nowMs (serializeAttachment this w \<lparr>authed = True\<rparr>)"
  have res: "webSocketMessage rt env nowMs this w message = (this', [Send w (js ''auth success'')])"
    using ag un eq by (simp add: webSocketMessage_def this'_def)
  have ws: "webSockets this' = webSockets (serializeAttachment this w \<lparr>authed = True\<rparr>)"
    by (simp add: this'_def ensureAlarm_def split: option.splits)
  have att: "deserializeAttachment this' w = Some \<lparr>authed = True\<rparr>"
    using deserialize_serializeAttachment [OF ag] deserializeAttachment_cong [OF ws] by simp
  have tg: "agent \<in> set (getTags this' w)"
    using ag getTags_cong [OF ws, of w] by simp
  define woken where "woken = fst (step rt env laterMs this' Evicted)"
  have wws: "webSockets woken = webSockets this'"
    by (simp add: woken_def step_def)
  have watt: "deserializeAttachment woken w = Some \<lparr>authed = True\<rparr>"
    using att deserializeAttachment_cong [OF wws] by simp
  have wtg: "agent \<in> set (getTags woken w)"
    using tg getTags_cong [OF wws, of w] by simp
  have fields: "alarmTime this' \<noteq> None" "monitorData this' = monitorData this"
      "offlineMap this' = offlineMap this" "cachedViewerPayload this' = cachedViewerPayload this"
      "storage this' = storage this"
    by (simp_all add: this'_def ensureAlarm_def serializeAttachment_def split: option.splits)
  show "let (this', out) = webSocketMessage rt env nowMs this w message;
            woken = fst (step rt env laterMs this' Evicted)
        in out = [Send w (js ''auth success'')]
           \<and> deserializeAttachment this' w = Some \<lparr>authed = True\<rparr>
           \<and> agent \<in> set (getTags this' w)
           \<and> alarmTime this' \<noteq> None
           \<and> monitorData this' = monitorData this
           \<and> offlineMap this' = offlineMap this
           \<and> cachedViewerPayload this' = cachedViewerPayload this
           \<and> storage this' = storage this
           \<and> deserializeAttachment woken w = Some \<lparr>authed = True\<rparr>
           \<and> webSocketMessage rt env laterMs woken w next_message
               = handleAgentData rt woken w next_message"
    using att tg fields watt webSocketMessage_authed [OF wtg watt, of rt env laterMs next_message]
    by (simp add: res woken_def [symmetric])
qed

lemma example_connected_eq:
  "example_connected =
     \<lparr>monitorData = [], offlineMap = [], initialized = True, cachedViewerPayload = None,
      webSockets = [(1, \<lparr>tags = [agent], attachment = Some \<lparr>authed = False\<rparr>\<rparr>)],
      storage = [], alarmTime = None\<rparr>"
  by (simp add: example_connected_def example_initial step_def handleAgentWebSocket_def)

lemma example_connected_socket:
  "agent \<in> set (getTags example_connected 1)"
  "deserializeAttachment example_connected 1 = Some \<lparr>authed = False\<rparr>"
  by (simp_all add: example_connected_eq getTags_def deserializeAttachment_def Map_get_def)

lemma example_secret:
  "js ''wrong'' \<noteq> AUTH_SECRET example_env" "js ''secret'' = AUTH_SECRET example_env"
  by (simp_all add: example_env_def js_def)

theorem C4_witness:
  "agent \<in> set (getTags example_connected 1)
   \<and> \<not> authed (case deserializeAttachment example_connected 1 of
                  None \<Rightarrow> \<lparr>authed = False\<rparr> | Some a \<Rightarrow> a)
   \<and> js ''wrong'' \<noteq> AUTH_SECRET example_env
   \<and> webSocketMessage example_runtime example_env 0 example_connected 1 (Text (js ''wrong''))
       = (example_connected\<lparr>webSockets := Map_delete (webSockets example_connected) 1\<rparr>,
          [Close 1 1008 (js ''auth failed'')])
   \<and> js ''secret'' = AUTH_SECRET example_env
   \<and> snd (webSocketMessage example_runtime example_env 0 example_connected 1 (Text (js ''secret'')))
       = [Send 1 (js ''auth success'')]
   \<and> deserializeAttachment
         (fst (webSocketMessage example_runtime example_env 0 example_connected 1
                 (Text (js ''secret'')))) 1
       = Some \<lparr>authed = True\<rparr>"
  using C4_first_message_authenticates [where this = example_connected and w = 1
      and message = "Text (js ''wrong'')" and rt = example_runtime and env = example_env
      and nowMs = 0]
    C4_first_message_authenticates [where this = example_connected and w = 1
      and message = "Text (js ''secret'')" and rt = example_runtime and env = example_env
      and nowMs = 0]
    example_connected_socket example_secret
  by (simp add: split_def Let_def)

section \<open>Sorting, storage and key lemmas\<close>

lemma mset_Array_insert: "mset (Array_insert c x xs) = add_mset x (mset xs)"
  by (induction xs) auto

lemma mset_Array_sort: "mset (Array_sort c xs) = mset xs"
  by (induction xs) (auto simp: Array_sort_def mset_Array_insert)

lemma set_Array_sort: "set (Array_sort c xs) = set xs"
  using mset_Array_sort [of c xs] by (metis set_mset_mset)

lemma length_Array_sort: "length (Array_sort c xs) = length xs"
  using mset_Array_sort [of c xs] by (metis size_mset)

lemma set_getAllMonitorData:
  "set (getAllMonitorData rt this)
   = {m. \<exists>(k, v) \<in> set (monitorData this). JSON_parse rt v = Inr m}"
  by (force simp: getAllMonitorData_def getAllMonitorData_entries_def set_Array_sort
      List.map_filter_def split: sum.splits)

lemma map_of_storage_put_all:
  "k \<notin> fst ` set puts \<Longrightarrow> map_of (storage_put_all st puts) k = map_of st k"
  unfolding storage_put_all_def
  by (induction puts arbitrary: st) (auto simp: map_of_Map_set)

lemma monitorKey_inj: "monitorKey a = monitorKey b \<longleftrightarrow> a = b"
  by (simp add: monitorKey_def)

lemma hostKey_not_monitor: "take (length (js ''monitor:'')) (hostKey nm) \<noteq> js ''monitor:''"
  by (simp add: hostKey_def js_def)

lemma monitorKey_not_host: "take (length (js ''host:'')) (monitorKey nm) \<noteq> js ''host:''"
  by (simp add: monitorKey_def js_def)

lemma storage_list_Map_delete_other:
  "take (length pfx) k \<noteq> pfx \<Longrightarrow> storage_list (Map_delete st k) pfx = storage_list st pfx"
  by (induction st) (auto simp: storage_list_def Map_delete_def)

lemma storage_list_Map_set_other:
  "take (length pfx) k \<noteq> pfx \<Longrightarrow> storage_list (Map_set st k v) pfx = storage_list st pfx"
  by (induction st) (auto simp: storage_list_def)

lemma example_decode_HK1:
  "decodeSnapshot example_runtime (Text (js ''{HK1:100''))
   = Some (js ''{HK1:100'',
           \<lparr>Host = Some \<lparr>Name = Some (js ''HK1''), info = ()\<rparr>, State = (), TimeStamp = 100\<rparr>)"
  by (simp add: decodeSnapshot_def decodeFrame_def tryDecompressStringMessage_def
      example_runtime_def example_JSON_parse_def js_def mathInt_def)


lemma example_stored_eq:
  "example_stored =
     \<lparr>monitorData = [(js ''HK1'', js ''{HK1:100'')], offlineMap = [], initialized = True,
      cachedViewerPayload = None,
      webSockets = [(1, \<lparr>tags = [agent], attachment = Some \<lparr>authed = True\<rparr>\<rparr>)],
      storage = [], alarmTime = Some 20000\<rparr>"
proof -
  have "example_stored
        = fst (step example_runtime example_env 1000 example_authed (Message 1 (Text (js ''{HK1:100''))))"
    by (simp add: example_stored_def example_authed_def)
  also have "\<dots> = fst (handleAgentData example_runtime example_authed 1 (Text (js ''{HK1:100'')))"
    using example_authed_socket by (simp add: step_def webSocketMessage_authed)
  also have "\<dots> = \<lparr>monitorData = [(js ''HK1'', js ''{HK1:100'')], offlineMap = [], initialized = True,
      cachedViewerPayload = None,
      webSockets = [(1, \<lparr>tags = [agent], attachment = Some \<lparr>authed = True\<rparr>\<rparr>)],
      storage = [], alarmTime = Some 20000\<rparr>"
    by (simp add: handleAgentData_decoded example_decode_HK1 Host_Name_def example_authed_eq
        Map_has_def Map_size_def MONITOR_DATA_MAX_ENTRIES_def broadcastToViewers_def
        getWebSockets_def)
      (simp add: js_def)
  finally show ?thesis .
qed

lemma example_stored_inv: "store_inv example_runtime example_stored"
  by (simp add: store_inv_def example_stored_eq Map_size_def MONITOR_DATA_MAX_ENTRIES_def
      example_parse_HK1 Host_Name_def) (simp add: js_def)

section \<open>Deleting a host\<close>

text \<open>
  C7. \<open>rpcDeleteHost\<close> answers 404 exactly when the name is not a key of the monitor
  store, and then returns the object unchanged (monitor store, offline map, cached
  payload, storage). Otherwise it answers 200 with success, and afterwards the name is
  a key neither of the monitor store nor of the offline map, the cached payload is
  \<open>None\<close>, the key \<^verbatim>\<open>monitor:<name>\<close> is gone from the storage, every other entry of
  the monitor store and of the storage is as before, in particular every
  \<^verbatim>\<open>host:\<close> entry; no snapshot returned by \<open>getAllMonitorData\<close> carries the name
  (the store invariant holding before), and a following \<open>persistMonitorSnapshot\<close>
  does not write the key again.
\<close>

theorem C7_deleteHost:
  "(status (snd (rpcDeleteHost this nm :: MonitorDO \<times> ('h, 's) response)) = 404
      \<longleftrightarrow> nm \<notin> fst ` set (monitorData this))
   \<and> (nm \<notin> fst ` set (monitorData this)
        \<longrightarrow> rpcDeleteHost this nm
            = (this, \<lparr>status = 404, success = False, body = NotFound :: ('h, 's) rpc_data\<rparr>))
   \<and> (nm \<in> fst ` set (monitorData this)
        \<longrightarrow> (let this' = fst (rpcDeleteHost this nm :: MonitorDO \<times> ('h, 's) response)
             in snd (rpcDeleteHost this nm)
                  = \<lparr>status = 200, success = True, body = Ok :: ('h, 's) rpc_data\<rparr>
                \<and> nm \<notin> fst ` set (monitorData this')
                \<and> nm \<notin> fst ` set (offlineMap this')
                \<and> cachedViewerPayload this' = None
                \<and> monitorKey nm \<notin> fst ` set (storage this')
                \<and> filter (\<lambda>e. fst e \<noteq> nm) (monitorData this') = filter (\<lambda>e. fst e \<noteq> nm) (monitorData this)
                \<and> filter (\<lambda>e. fst e \<noteq> monitorKey nm) (storage this')
                    = filter (\<lambda>e. fst e \<noteq> monitorKey nm) (storage this)
                \<and> storage_list (storage this') (js ''host:'')
                    = storage_list (storage this) (js ''host:'')
                \<and> (store_inv rt this
                     \<longrightarrow> (\<forall>data \<in> set (getAllMonitorData rt this'). Host_Name data \<noteq> Some nm))
                \<and> monitorKey nm \<notin> fst ` set (storage (persistMonitorSnapshot this'))))"
proof (intro conjI impI)
  show "(status (snd (rpcDeleteHost this nm :: MonitorDO \<times> ('h, 's) response)) = 404)
        \<longleftrightarrow> nm \<notin> fst ` set (monitorData this)"
    by (simp add: rpcDeleteHost_def Map_has_iff)
next
  assume "nm \<notin> fst ` set (monitorData this)"
  then show "rpcDeleteHost this nm
            = (this, \<lparr>status = 404, success = False, body = NotFound :: ('h, 's) rpc_data\<rparr>)"
    by (simp add: rpcDeleteHost_def Map_has_iff)
next
  assume present: "nm \<in> fst ` set (monitorData this)"
  define this' where "this' = this\<lparr>monitorData := Map_delete (monitorData this) nm,
              offlineMap := Map_delete (offlineMap this) nm,
              cachedViewerPayload := None,
              storage := Map_delete (storage this) (monitorKey nm)\<rparr>"
  have res: "(rpcDeleteHost this nm :: MonitorDO \<times> ('h, 's) response)
             = (this', \<lparr>status = 200, success = True, body = Ok\<rparr>)"
    using present by (simp add: rpcDeleteHost_def Map_has_iff this'_def)
  have md: "nm \<notin> fst ` set (monitorData this')"
    and off: "nm \<notin> fst ` set (offlineMap this')"
    and st: "monitorKey nm \<notin> fst ` set (storage this')"
    by (auto simp: this'_def Map_delete_def)
  have others: "filter (\<lambda>e. fst e \<noteq> nm) (monitorData this') = filter (\<lambda>e. fst e \<noteq> nm) (monitorData this)"
    "filter (\<lambda>e. fst e \<noteq> monitorKey nm) (storage this')
       = filter (\<lambda>e. fst e \<noteq> monitorKey nm) (storage this)"
    by (simp_all add: this'_def Map_delete_def)
  have hosts: "storage_list (storage this') (js ''host:'') = storage_list (storage this) (js ''host:'')"
    by (simp add: this'_def storage_list_Map_delete_other monitorKey_not_host)
  have all: "\<forall>data \<in> set (getAllMonitorData rt this'). Host_Name data \<noteq> Some nm"
    if inv: "store_inv rt this"
  proof
    fix data assume "data \<in> set (getAllMonitorData rt this')"
    then obtain k v where kv: "(k, v) \<in> set (monitorData this')" and p: "JSON_parse rt v = Inr data"
      by (auto simp: set_getAllMonitorData)
    from kv have "k \<noteq> nm" and "(k, v) \<in> set (monitorData this)"
      by (auto simp: this'_def Map_delete_def)
    with inv p have "Host_Name data = Some k"
      by (auto simp: store_inv_def)
    with \<open>k \<noteq> nm\<close> show "Host_Name data \<noteq> Some nm" by simp
  qed
  have persist: "monitorKey nm \<notin> fst ` set (storage (persistMonitorSnapshot this'))"
  proof -
    have "monitorKey nm \<notin> fst ` set (map (\<lambda>(nm, jsonStr). (monitorKey nm, jsonStr)) (monitorData this'))"
      using md by (force simp: monitorKey_inj)
    then have "map_of (storage (persistMonitorSnapshot this')) (monitorKey nm)
               = map_of (storage this') (monitorKey nm)"
      by (simp add: persistMonitorSnapshot_def Let_def map_of_storage_put_all)
    with st show ?thesis
      by (simp add: map_of_eq_None_iff [symmetric])
  qed
  show "let this' = fst (rpcDeleteHost this nm :: MonitorDO \<times> ('h, 's) response)
        in snd (rpcDeleteHost this nm)
             = \<lparr>status = 200, success = True, body = Ok :: ('h, 's) rpc_data\<rparr>
           \<and> nm \<notin> fst ` set (monitorData this')
           \<and> nm \<notin> fst ` set (offlineMap this')
           \<and> cachedViewerPayload this' = None
           \<and> monitorKey nm \<notin> fst ` set (storage this')
           \<and> filter (\<lambda>e. fst e \<noteq> nm) (monitorData this') = filter (\<lambda>e. fst e \<noteq> nm) (monitorData this)
           \<and> filter (\<lambda>e. fst e \<noteq> monitorKey nm) (storage this')
               = filter (\<lambda>e. fst e \<noteq> monitorKey nm) (storage this)
           \<and> storage_list (storage this') (js ''host:'')
               = storage_list (storage this) (js ''host:'')
           \<and> (store_inv rt this
                \<longrightarrow> (\<forall>data \<in> set (getAllMonitorData rt this'). Host_Name data \<noteq> Some nm))
           \<and> monitorKey nm \<notin> fst ` set (storage (persistMonitorSnapshot this'))"
    unfolding res Let_def fst_conv snd_conv
    using md off st others hosts all persist
    by (simp add: this'_def)
qed

theorem C7_witness:
  "js ''ghost'' \<notin> fst ` set (monitorData example_authed)
   \<and> (rpcDeleteHost example_authed (js ''ghost'') :: MonitorDO \<times> (unit, unit) response)
       = (example_authed, \<lparr>status = 404, success = False, body = NotFound\<rparr>)
   \<and> js ''HK1'' \<in> fst ` set (monitorData example_stored)
   \<and> store_inv example_runtime example_stored
   \<and> snd (rpcDeleteHost example_stored (js ''HK1'') :: MonitorDO \<times> (unit, unit) response)
       = \<lparr>status = 200, success = True, body = Ok\<rparr>
   \<and> js ''HK1''
       \<notin> fst ` set (monitorData
                      (fst (rpcDeleteHost example_stored (js ''HK1'')
                              :: MonitorDO \<times> (unit, unit) response)))
   \<and> monitorKey (js ''HK1'')
       \<notin> fst ` set (storage
                      (persistMonitorSnapshot
                         (fst (rpcDeleteHost example_stored (js ''HK1'')
                                 :: MonitorDO \<times> (unit, unit) response))))"
  using C7_deleteHost [where this = example_authed and nm = "js ''ghost''"
        and ?'h = unit and ?'s = unit and rt = example_runtime]
    C7_deleteHost [where this = example_stored and nm = "js ''HK1''"
        and ?'h = unit and ?'s = unit and rt = example_runtime]
    example_stored_inv
  by (simp add: Let_def example_authed_eq example_stored_eq)

section \<open>The cached viewer payload\<close>




lemma getViewerPayload_fields:
  "monitorData (snd (getViewerPayload rt this)) = monitorData this"
  "webSockets (snd (getViewerPayload rt this)) = webSockets this"
  "storage (snd (getViewerPayload rt this)) = storage this"
  "offlineMap (snd (getViewerPayload rt this)) = offlineMap this"
  "alarmTime (snd (getViewerPayload rt this)) = alarmTime this"
  by (simp_all add: getViewerPayload_def Let_def split: option.splits)




lemma broadcast_fields:
  "monitorData (fst (broadcastToViewers rt this)) = monitorData this"
  "webSockets (fst (broadcastToViewers rt this)) = webSockets this"
  "storage (fst (broadcastToViewers rt this)) = storage this"
  "offlineMap (fst (broadcastToViewers rt this)) = offlineMap this"
  "alarmTime (fst (broadcastToViewers rt this)) = alarmTime this"
  by (simp_all add: broadcastToViewers_def Let_def split_def getViewerPayload_fields)












section \<open>The sweep\<close>

lemma Map_get_Map_set: "Map_get (Map_set m k v) k' = (if k' = k then Some v else Map_get m k')"
  by (simp add: Map_get_def map_of_Map_set)

lemma Map_get_Map_delete: "Map_get (Map_delete m k) k' = (if k' = k then None else Map_get m k')"
  by (simp add: Map_get_def map_of_Map_delete)

lemma sendTGMessage_eq:
  "token \<noteq> [] \<Longrightarrow> chatId \<noteq> [] \<Longrightarrow> chatId \<noteq> js ''0''
   \<Longrightarrow> sendTGMessage rt token chatId txt = [Telegram token chatId txt]"
  by (simp add: sendTGMessage_def split: sum.splits)

lemma sendTGMessage_fetch:
  "sendTGMessage (rt\<lparr>fetch_sendMessage := f\<rparr>) token chatId txt = sendTGMessage rt token chatId txt"
  by (simp add: sendTGMessage_def split: sum.splits)

lemma loop_Cons:
  "checkOfflineStatus_loop rt token chatId th now (m # ms) acc
   = checkOfflineStatus_loop rt token chatId th now ms (sweepStep rt token chatId th now m acc)"
  by (cases acc) (simp add: sweepStep_def Let_def split: option.splits)

lemma loop_foldl:
  "checkOfflineStatus_loop rt token chatId th now ms acc
   = foldl (\<lambda>acc m. sweepStep rt token chatId th now m acc) acc ms"
proof (induction ms arbitrary: acc)
  case Nil
  show ?case by (cases acc) simp
next
  case (Cons m ms)
  show ?case
    unfolding loop_Cons Cons.IH by simp
qed

lemma sweepStep_fetch:
  "sweepStep (rt\<lparr>fetch_sendMessage := f\<rparr>) token chatId th now m acc
   = sweepStep rt token chatId th now m acc"
  by (simp add: sweepStep_def sendTGMessage_fetch split: option.splits)

lemma sweepStep_quiet:
  "sweepNotification th now (fst acc) m = None \<Longrightarrow> sweepStep rt token chatId th now m acc = acc"
  by (auto simp: sweepStep_def sweepNotification_def split: option.splits if_splits)

lemma sweepStep_other:
  "Host_Name m \<noteq> Some nm
   \<Longrightarrow> Map_get (fst (sweepStep rt token chatId th now m acc)) nm = Map_get (fst acc) nm"
  by (simp add: sweepStep_def Map_get_Map_set Map_get_Map_delete split: option.splits)

lemma sweepStep_flag:
  "Host_Name m = Some nm \<Longrightarrow> nm \<noteq> []
   \<Longrightarrow> (Map_get (fst (sweepStep rt token chatId th now m acc)) nm = Some True)
       = (TimeStamp m < now - th)"
  by (simp add: sweepStep_def Map_get_Map_set Map_get_Map_delete)

lemma sweepStep_sent:
  "token \<noteq> [] \<Longrightarrow> chatId \<noteq> [] \<Longrightarrow> chatId \<noteq> js ''0''
   \<Longrightarrow> snd (sweepStep rt token chatId th now m acc)
       = snd acc @ (case sweepNotification th now (fst acc) m of
                      None \<Rightarrow> []
                    | Some txt \<Rightarrow> [Telegram token chatId txt])"
  by (simp add: sweepStep_def sweepNotification_def sendTGMessage_eq split: option.splits)

lemma sweepNotification_cong:
  "(\<And>nm. Host_Name m = Some nm \<Longrightarrow> Map_get off nm = Map_get off0 nm)
   \<Longrightarrow> sweepNotification th now off m = sweepNotification th now off0 m"
  by (simp add: sweepNotification_def split: option.splits)


lemma loop_fetch:
  "checkOfflineStatus_loop (rt\<lparr>fetch_sendMessage := f\<rparr>) token chatId th now ms acc
   = checkOfflineStatus_loop rt token chatId th now ms acc"
  by (simp add: loop_foldl sweepStep_fetch)

lemma loop_quiet:
  "\<forall>m \<in> set ms. sweepNotification th now (fst acc) m = None
   \<Longrightarrow> checkOfflineStatus_loop rt token chatId th now ms acc = acc"
  by (induction ms) (simp_all add: loop_Cons sweepStep_quiet)

lemma loop_other:
  "Some nm \<notin> set (map Host_Name ms)
   \<Longrightarrow> Map_get (fst (checkOfflineStatus_loop rt token chatId th now ms acc)) nm
       = Map_get (fst acc) nm"
proof (induction ms arbitrary: acc)
  case Nil
  show ?case by (cases acc) simp
next
  case (Cons m ms)
  then have "Host_Name m \<noteq> Some nm" and "Some nm \<notin> set (map Host_Name ms)"
    by auto
  then show ?case
    by (simp add: loop_Cons Cons.IH sweepStep_other)
qed

lemma loop_flag:
  "distinct (map Host_Name ms) \<Longrightarrow> m \<in> set ms \<Longrightarrow> Host_Name m = Some nm \<Longrightarrow> nm \<noteq> []
   \<Longrightarrow> (Map_get (fst (checkOfflineStatus_loop rt token chatId th now ms acc)) nm = Some True)
       = (TimeStamp m < now - th)"
proof (induction ms arbitrary: acc)
  case Nil
  then show ?case by simp
next
  case (Cons a ms)
  show ?case
  proof (cases "a = m")
    case True
    have "Some nm \<notin> set (map Host_Name ms)"
      using Cons.prems True by auto
    then show ?thesis
      using Cons.prems(3,4) True
      by (simp add: loop_Cons loop_other sweepStep_flag)
  next
    case False
    then have m: "m \<in> set ms" using Cons.prems by simp
    have d: "distinct (map Host_Name ms)" using Cons.prems by simp
    show ?thesis
      using Cons.IH [OF d m Cons.prems(3,4)] by (simp add: loop_Cons)
  qed
qed

lemma loop_sent:
  assumes tok: "token \<noteq> []" "chatId \<noteq> []" "chatId \<noteq> js ''0''"
  shows "distinct (map Host_Name ms)
   \<Longrightarrow> (\<And>m nm. m \<in> set ms \<Longrightarrow> Host_Name m = Some nm \<Longrightarrow> Map_get (fst acc) nm = Map_get off0 nm)
   \<Longrightarrow> snd (checkOfflineStatus_loop rt token chatId th now ms acc)
       = snd acc @ map (Telegram token chatId) (List.map_filter (sweepNotification th now off0) ms)"
proof (induction ms arbitrary: acc)
  case Nil
  show ?case by (cases acc) (simp add: List.map_filter_simps)
next
  case (Cons m ms)
  have d: "distinct (map Host_Name ms)" using Cons.prems(1) by simp
  have here: "sweepNotification th now (fst acc) m = sweepNotification th now off0 m"
    by (rule sweepNotification_cong) (rule Cons.prems(2) [of m], simp_all)
  have rest: "Map_get (fst (sweepStep rt token chatId th now m acc)) nm' = Map_get off0 nm'"
    if "m' \<in> set ms" and "Host_Name m' = Some nm'" for m' nm'
  proof -
    from that Cons.prems(1) have "Host_Name m \<noteq> Some nm'"
      by (metis distinct.simps(2) image_eqI list.simps(9) set_map)
    then show ?thesis
      using Cons.prems(2) [of m' nm'] that by (simp add: sweepStep_other)
  qed
  show ?case
    using Cons.IH [OF d rest] here
    by (simp add: loop_Cons sweepStep_sent [OF tok] List.map_filter_simps split: option.splits)
qed

lemma entries_inv:
  assumes "\<forall>(k, v) \<in> set md. k \<noteq> [] \<and> (\<exists>data. JSON_parse rt v = Inr data \<and> Host_Name data = Some k)"
  shows "map fst (List.map_filter
                    (\<lambda>(nm, jsonStr). case JSON_parse rt jsonStr of
                                       Inl _ \<Rightarrow> None
                                     | Inr m \<Rightarrow> Some (nm, m)) md) = map fst md
     \<and> (\<forall>(k, d) \<in> set (List.map_filter
                    (\<lambda>(nm, jsonStr). case JSON_parse rt jsonStr of
                                       Inl _ \<Rightarrow> None
                                     | Inr m \<Rightarrow> Some (nm, m)) md). k \<noteq> [] \<and> Host_Name d = Some k)"
  using assms
proof (induction md)
  case Nil
  show ?case by (simp add: List.map_filter_simps)
next
  case (Cons e md)
  obtain k v where e: "e = (k, v)" by (cases e)
  from Cons.prems e obtain data where d: "JSON_parse rt v = Inr data" "Host_Name data = Some k" "k \<noteq> []"
    by auto
  from Cons.prems have "\<forall>(k, v) \<in> set md. k \<noteq> [] \<and> (\<exists>data. JSON_parse rt v = Inr data \<and> Host_Name data = Some k)"
    by simp
  from Cons.IH [OF this] d e show ?case
    by (simp add: List.map_filter_simps)
qed


lemma getAllMonitorData_entries_inv:
  assumes "store_inv rt this"
  shows "map fst (getAllMonitorData_entries rt this) = map fst (monitorData this)"
    and "\<forall>(k, d) \<in> set (getAllMonitorData_entries rt this). k \<noteq> [] \<and> Host_Name d = Some k"
proof -
  have "\<forall>(k, v) \<in> set (monitorData this).
          k \<noteq> [] \<and> (\<exists>data. JSON_parse rt v = Inr data \<and> Host_Name data = Some k)"
    using assms unfolding store_inv_def by blast
  from entries_inv [OF this]
  show "map fst (getAllMonitorData_entries rt this) = map fst (monitorData this)"
    and "\<forall>(k, d) \<in> set (getAllMonitorData_entries rt this). k \<noteq> [] \<and> Host_Name d = Some k"
    unfolding getAllMonitorData_entries_def by blast+
qed

lemma getAllMonitorData_names:
  assumes "store_inv rt this"
  shows "map Host_Name (getAllMonitorData rt this)
         = map (\<lambda>e. Some (fst e))
             (Array_sort (\<lambda>a b. compareStrings (fst a) (fst b)) (getAllMonitorData_entries rt this))"
proof -
  have *: "Host_Name (snd e) = Some (fst e)"
    if "e \<in> set (getAllMonitorData_entries rt this)" for e
  proof -
    have "case e of (k, d) \<Rightarrow> k \<noteq> [] \<and> Host_Name d = Some k"
      using getAllMonitorData_entries_inv(2) [OF assms] that by (rule bspec)
    then show ?thesis by (cases e) simp
  qed
  show ?thesis
    unfolding getAllMonitorData_def Let_def map_map comp_def
  proof (rule map_cong [OF refl])
    fix e
    assume "e \<in> set (Array_sort (\<lambda>a b. compareStrings (fst a) (fst b))
                        (getAllMonitorData_entries rt this))"
    then have "e \<in> set (getAllMonitorData_entries rt this)"
      by (simp only: set_Array_sort)
    then show "Host_Name (snd e) = Some (fst e)" by (rule *)
  qed
qed

lemma getAllMonitorData_distinct:
  assumes "store_inv rt this"
  shows "distinct (map Host_Name (getAllMonitorData rt this))"
proof -
  let ?sorted = "Array_sort (\<lambda>a b. compareStrings (fst a) (fst b)) (getAllMonitorData_entries rt this)"
  have "mset (map fst ?sorted) = mset (map fst (getAllMonitorData_entries rt this))"
    by (simp add: mset_Array_sort)
  then have "mset (map fst ?sorted) = mset (map fst (monitorData this))"
    by (simp add: getAllMonitorData_entries_inv(1) [OF assms])
  moreover have "distinct (map fst (monitorData this))"
    using assms by (simp add: store_inv_def)
  ultimately have "distinct (map fst ?sorted)"
    using mset_eq_imp_distinct_iff by blast
  then have "distinct (map (\<lambda>e. Some (fst e)) ?sorted)"
    by (simp add: distinct_map inj_on_def)
  then show ?thesis
    by (simp add: getAllMonitorData_names [OF assms])
qed

lemma getAllMonitorData_named:
  assumes "store_inv rt this" and "m \<in> set (getAllMonitorData rt this)"
  shows "\<exists>nm. Host_Name m = Some nm \<and> nm \<noteq> [] \<and> nm \<in> fst ` set (monitorData this)"
proof -
  from assms(2) obtain k where k: "(k, m) \<in> set (getAllMonitorData_entries rt this)"
    by (auto simp: getAllMonitorData_def set_Array_sort)
  then have "k \<in> set (map fst (getAllMonitorData_entries rt this))"
    by force
  then have "k \<in> fst ` set (monitorData this)"
    using getAllMonitorData_entries_inv(1) [OF assms(1)] by simp
  moreover have "case (k, m) of (k, d) \<Rightarrow> k \<noteq> [] \<and> Host_Name d = Some k"
    using getAllMonitorData_entries_inv(2) [OF assms(1)] k by (rule bspec)
  ultimately show ?thesis
    by simp
qed

lemma offlineMessage_inj: "offlineMessage a = offlineMessage b \<longleftrightarrow> a = b"
  by (simp add: offlineMessage_def)

lemma onlineMessage_inj: "onlineMessage a = onlineMessage b \<longleftrightarrow> a = b"
  by (simp add: onlineMessage_def)

lemma offline_not_online: "offlineMessage a \<noteq> onlineMessage b"
  by (simp add: offlineMessage_def onlineMessage_def)

lemma online_not_offline: "onlineMessage a \<noteq> offlineMessage b"
  by (simp add: offlineMessage_def onlineMessage_def)

lemma count_map_filter_none:
  "\<forall>m' \<in> set ms. g m' \<noteq> Some x \<Longrightarrow> count_list (List.map_filter g ms) x = 0"
  by (induction ms) (auto simp: List.map_filter_simps split: option.splits)

lemma count_map_filter_unique:
  assumes "distinct (map h ms)" and "m \<in> set ms"
    and "\<And>m'. m' \<in> set ms \<Longrightarrow> g m' = Some x \<Longrightarrow> h m' = h m"
  shows "count_list (List.map_filter g ms) x = (if g m = Some x then 1 else 0)"
  using assms
proof (induction ms)
  case Nil
  then show ?case by simp
next
  case (Cons a ms)
  show ?case
  proof (cases "a = m")
    case True
    have "\<forall>m' \<in> set ms. g m' \<noteq> Some x"
    proof
      fix m' assume m': "m' \<in> set ms"
      show "g m' \<noteq> Some x"
      proof
        assume "g m' = Some x"
        then have "h m' = h m" using Cons.prems(3) m' by simp
        moreover have "h m \<notin> h ` set ms" using Cons.prems(1) True by simp
        ultimately show False using m' by (metis imageI)
      qed
    qed
    then show ?thesis
      using True by (simp add: List.map_filter_simps count_map_filter_none split: option.splits)
  next
    case False
    then have m: "m \<in> set ms" using Cons.prems(2) by simp
    have d: "distinct (map h ms)" using Cons.prems(1) by simp
    have "h a \<notin> h ` set ms" using Cons.prems(1) by simp
    then have "h a \<noteq> h m" using m by (metis imageI)
    then have "g a \<noteq> Some x" using Cons.prems(3) [of a] by auto
    then show ?thesis
      using Cons.IH [OF d m] Cons.prems(3)
      by (auto simp: List.map_filter_simps split: option.splits)
  qed
qed

lemma count_list_Telegram:
  "count_list (map (Telegram token chatId) xs) (Telegram token chatId x) = count_list xs x"
  by (induction xs) auto

lemma sweepNotification_offline:
  "sweepNotification th now off m = Some (offlineMessage nm)
   \<longleftrightarrow> Host_Name m = Some nm \<and> nm \<noteq> [] \<and> TimeStamp m < now - th \<and> Map_get off nm \<noteq> Some True"
  by (auto simp: sweepNotification_def offlineMessage_inj online_not_offline
      split: option.splits if_splits)

lemma sweepNotification_online:
  "sweepNotification th now off m = Some (onlineMessage nm)
   \<longleftrightarrow> Host_Name m = Some nm \<and> nm \<noteq> [] \<and> TimeStamp m \<ge> now - th \<and> Map_get off nm = Some True"
  using offline_not_online [of _ nm]
  by (auto simp: sweepNotification_def onlineMessage_inj split: option.splits if_splits)

lemma checkOfflineStatus_loop_eq:
  "token \<noteq> [] \<Longrightarrow> chatId \<noteq> [] \<Longrightarrow> chatId \<noteq> js ''0''
   \<Longrightarrow> checkOfflineStatus rt ms off token chatId th now
       = checkOfflineStatus_loop rt token chatId th now ms (off, [])"
  by (simp add: checkOfflineStatus_def)

lemma alarm_sweep:
  assumes "ENABLE_TG env = js ''true''" "TG_CHAT_ID env \<noteq> []" "TG_CHAT_ID env \<noteq> js ''0''"
  shows "offlineMap (fst (alarm rt env nowMs this))
         = fst (checkOfflineStatus rt (getAllMonitorData rt this) (offlineMap this) (TG_TOKEN env)
                  (TG_CHAT_ID env) OFFLINE_THRESHOLD_SEC (nowMs div 1000))"
    and "snd (alarm rt env nowMs this)
         = snd (checkOfflineStatus rt (getAllMonitorData rt this) (offlineMap this) (TG_TOKEN env)
                  (TG_CHAT_ID env) OFFLINE_THRESHOLD_SEC (nowMs div 1000))"
  using assms
  by (simp_all add: alarm_def Let_def split_def persistMonitorSnapshot_def)

lemma example_decode_HK1_161:
  "decodeSnapshot example_runtime (Text (js ''{HK1:161''))
   = Some (js ''{HK1:161'',
           \<lparr>Host = Some \<lparr>Name = Some (js ''HK1''), info = ()\<rparr>, State = (), TimeStamp = 161\<rparr>)"
  by (simp add: decodeSnapshot_def decodeFrame_def tryDecompressStringMessage_def
      example_runtime_def example_JSON_parse_def js_def mathInt_def)

lemma example_parse_HK1_161:
  "JSON_parse example_runtime (js ''{HK1:161'')
   = Inr \<lparr>Host = Some \<lparr>Name = Some (js ''HK1''), info = ()\<rparr>, State = (), TimeStamp = 161\<rparr>"
  by (simp add: example_runtime_def example_JSON_parse_def js_def mathInt_def)

lemma example_refreshed_eq:
  "example_refreshed =
     \<lparr>monitorData = [(js ''HK1'', js ''{HK1:161'')], offlineMap = [], initialized = True,
      cachedViewerPayload = None,
      webSockets = [(1, \<lparr>tags = [agent], attachment = Some \<lparr>authed = True\<rparr>\<rparr>)],
      storage = [], alarmTime = Some 20000\<rparr>"
proof -
  have s: "agent \<in> set (getTags example_stored 1)"
    "deserializeAttachment example_stored 1 = Some \<lparr>authed = True\<rparr>"
    by (simp_all add: example_stored_eq getTags_def deserializeAttachment_def Map_get_def)
  have "example_refreshed
        = fst (handleAgentData example_runtime example_stored 1 (Text (js ''{HK1:161'')))"
    using s by (simp add: example_refreshed_def step_def webSocketMessage_authed)
  also have "\<dots> = \<lparr>monitorData = [(js ''HK1'', js ''{HK1:161'')], offlineMap = [], initialized = True,
      cachedViewerPayload = None,
      webSockets = [(1, \<lparr>tags = [agent], attachment = Some \<lparr>authed = True\<rparr>\<rparr>)],
      storage = [], alarmTime = Some 20000\<rparr>"
    by (simp add: handleAgentData_decoded example_decode_HK1_161 Host_Name_def example_stored_eq
        Map_has_def Map_size_def MONITOR_DATA_MAX_ENTRIES_def broadcastToViewers_def
        getWebSockets_def)
      (simp add: js_def)
  finally show ?thesis .
qed

lemma example_refreshed_inv: "store_inv example_runtime example_refreshed"
  by (simp add: store_inv_def example_refreshed_eq Map_size_def MONITOR_DATA_MAX_ENTRIES_def
      example_parse_HK1_161 Host_Name_def) (simp add: js_def)

lemma example_getAll_stored:
  "getAllMonitorData example_runtime example_stored
   = [\<lparr>Host = Some \<lparr>Name = Some (js ''HK1''), info = ()\<rparr>, State = (), TimeStamp = 100\<rparr>]"
  by (simp add: getAllMonitorData_def getAllMonitorData_entries_def example_stored_eq
      List.map_filter_def example_parse_HK1 Array_sort_def)

lemma example_getAll_refreshed:
  "getAllMonitorData example_runtime example_refreshed
   = [\<lparr>Host = Some \<lparr>Name = Some (js ''HK1''), info = ()\<rparr>, State = (), TimeStamp = 161\<rparr>]"
  by (simp add: getAllMonitorData_def getAllMonitorData_entries_def example_refreshed_eq
      List.map_filter_def example_parse_HK1_161 Array_sort_def)

lemma example_token: "js ''token'' \<noteq> []" "js ''42'' \<noteq> []" "js ''42'' \<noteq> js ''0''"
  by (simp_all add: js_def)

lemma example_sweep1:
  "checkOfflineStatus example_runtime (getAllMonitorData example_runtime example_stored) []
     (js ''token'') (js ''42'') OFFLINE_THRESHOLD_SEC 161
   = ([(js ''HK1'', True)], [Telegram (js ''token'') (js ''42'') (offlineMessage (js ''HK1''))])"
  using example_token
  by (simp add: checkOfflineStatus_def example_getAll_stored Host_Name_def Map_get_def
      OFFLINE_THRESHOLD_SEC_def sendTGMessage_eq)
    (simp add: js_def)

lemma example_sweep2:
  "checkOfflineStatus example_runtime (getAllMonitorData example_runtime example_refreshed)
     [(js ''HK1'', True)] (js ''token'') (js ''42'') OFFLINE_THRESHOLD_SEC 161
   = ([], [Telegram (js ''token'') (js ''42'') (onlineMessage (js ''HK1''))])"
  using example_token
  by (simp add: checkOfflineStatus_def example_getAll_refreshed Host_Name_def Map_get_def
      Map_delete_def OFFLINE_THRESHOLD_SEC_def sendTGMessage_eq)
    (simp add: js_def)

text \<open>
  One sweep, and the sweep that follows it in the same lifetime of the object. A sweep
  over the snapshots of the store (the store invariant holding), with a
  non-empty token and a non-empty chat id other than \<open>0\<close>. The notifications sent are,
  in the order of the snapshots, exactly those the snapshots cause against the flags
  the sweep started with: an offline notification for a snapshot with
  \<open>TimeStamp < now - 60\<close> that was not flagged, an online notification for a snapshot
  with \<open>TimeStamp \<ge> now - 60\<close> that was flagged, nothing otherwise. So each such
  snapshot's notification occurs exactly once among those sent and no other snapshot's
  occurs at all, and after the sweep a snapshot's name is flagged exactly when the
  snapshot is stale; names without a snapshot keep their flag. A following sweep over
  snapshots whose names and staleness are those of this sweep sends nothing and leaves
  the flags as they are. What the requests to the Bot API return or throw changes
  neither the flags nor the notifications dispatched. \<open>alarm\<close> runs this sweep, with
  the configured token and chat id, when notifications are enabled.
\<close>

lemma sweep_transitions:
  assumes tok: "token \<noteq> []" and chat: "chatId \<noteq> []" "chatId \<noteq> js ''0''"
    and inv: "store_inv rt this"
  shows
  "let monitors = getAllMonitorData rt this;
       (offline', sent) =
         checkOfflineStatus rt monitors offline token chatId OFFLINE_THRESHOLD_SEC now
   in sent = map (Telegram token chatId)
               (List.map_filter (sweepNotification OFFLINE_THRESHOLD_SEC now offline) monitors)
      \<and> (\<forall>m \<in> set monitors.
            \<exists>nm. Host_Name m = Some nm \<and> nm \<noteq> []
              \<and> (Map_get offline' nm = Some True) = (TimeStamp m < now - OFFLINE_THRESHOLD_SEC)
              \<and> count_list sent (Telegram token chatId (offlineMessage nm))
                  = (if TimeStamp m < now - OFFLINE_THRESHOLD_SEC \<and> Map_get offline nm \<noteq> Some True
                     then 1 else 0)
              \<and> count_list sent (Telegram token chatId (onlineMessage nm))
                  = (if TimeStamp m \<ge> now - OFFLINE_THRESHOLD_SEC \<and> Map_get offline nm = Some True
                     then 1 else 0))
      \<and> (\<forall>nm. Some nm \<notin> set (map Host_Name monitors) \<longrightarrow> Map_get offline' nm = Map_get offline nm)
      \<and> (\<forall>monitors2 now2.
            (\<forall>m2 \<in> set monitors2.
               \<exists>m \<in> set monitors. Host_Name m2 = Host_Name m
                 \<and> (TimeStamp m2 < now2 - OFFLINE_THRESHOLD_SEC)
                     = (TimeStamp m < now - OFFLINE_THRESHOLD_SEC))
            \<longrightarrow> checkOfflineStatus rt monitors2 offline' token chatId OFFLINE_THRESHOLD_SEC now2
                = (offline', []))
      \<and> checkOfflineStatus (rt\<lparr>fetch_sendMessage := f\<rparr>) monitors offline token chatId
            OFFLINE_THRESHOLD_SEC now = (offline', sent)
      \<and> (ENABLE_TG env = js ''true'' \<and> TG_TOKEN env = token \<and> TG_CHAT_ID env = chatId
           \<and> offlineMap this = offline \<and> nowMs div 1000 = now
           \<longrightarrow> offlineMap (fst (alarm rt env nowMs this)) = offline'
               \<and> snd (alarm rt env nowMs this) = sent)"
proof -
  define th where "th = OFFLINE_THRESHOLD_SEC"
  define ms where "ms = getAllMonitorData rt this"
  define res where "res = checkOfflineStatus_loop rt token chatId th now ms (offline, [])"
  define off' where "off' = fst res"
  define sent where "sent = snd res"
  have run: "checkOfflineStatus rt ms offline token chatId th now = (off', sent)"
    by (simp add: checkOfflineStatus_loop_eq [OF tok chat] res_def off'_def sent_def)
  have d: "distinct (map Host_Name ms)"
    unfolding ms_def by (rule getAllMonitorData_distinct [OF inv])
  have named: "\<exists>nm. Host_Name m = Some nm \<and> nm \<noteq> []" if "m \<in> set ms" for m
    using getAllMonitorData_named [OF inv] that unfolding ms_def by blast
  have sent_eq: "sent = map (Telegram token chatId) (List.map_filter (sweepNotification th now offline) ms)"
    unfolding sent_def res_def
    using loop_sent [OF tok chat d, of "(offline, [])" offline rt th now] by simp
  have flag: "(Map_get off' nm = Some True) = (TimeStamp m < now - th)"
    if "m \<in> set ms" "Host_Name m = Some nm" "nm \<noteq> []" for m nm
    unfolding off'_def res_def by (rule loop_flag [OF d that])
  have c_off: "count_list sent (Telegram token chatId (offlineMessage nm))
               = (if TimeStamp m < now - th \<and> Map_get offline nm \<noteq> Some True then 1 else 0)"
    if m: "m \<in> set ms" "Host_Name m = Some nm" "nm \<noteq> []" for m nm
  proof -
    have "count_list (List.map_filter (sweepNotification th now offline) ms) (offlineMessage nm)
          = (if sweepNotification th now offline m = Some (offlineMessage nm) then 1 else 0)"
      by (rule count_map_filter_unique [OF d m(1)]) (simp add: sweepNotification_offline m(2))
    then show ?thesis
      using m by (simp add: sent_eq count_list_Telegram sweepNotification_offline)
  qed
  have c_on: "count_list sent (Telegram token chatId (onlineMessage nm))
               = (if TimeStamp m \<ge> now - th \<and> Map_get offline nm = Some True then 1 else 0)"
    if m: "m \<in> set ms" "Host_Name m = Some nm" "nm \<noteq> []" for m nm
  proof -
    have "count_list (List.map_filter (sweepNotification th now offline) ms) (onlineMessage nm)
          = (if sweepNotification th now offline m = Some (onlineMessage nm) then 1 else 0)"
      by (rule count_map_filter_unique [OF d m(1)]) (simp add: sweepNotification_online m(2))
    then show ?thesis
      using m by (simp add: sent_eq count_list_Telegram sweepNotification_online)
  qed
  have per: "\<exists>nm. Host_Name m = Some nm \<and> nm \<noteq> []
              \<and> (Map_get off' nm = Some True) = (TimeStamp m < now - th)
              \<and> count_list sent (Telegram token chatId (offlineMessage nm))
                  = (if TimeStamp m < now - th \<and> Map_get offline nm \<noteq> Some True then 1 else 0)
              \<and> count_list sent (Telegram token chatId (onlineMessage nm))
                  = (if TimeStamp m \<ge> now - th \<and> Map_get offline nm = Some True then 1 else 0)"
    if "m \<in> set ms" for m
  proof -
    from named [OF that] obtain nm where nm: "Host_Name m = Some nm" "nm \<noteq> []" by blast
    show ?thesis
      using nm flag [OF that nm] c_off [OF that nm] c_on [OF that nm] by blast
  qed
  have other: "Map_get off' nm = Map_get offline nm" if "Some nm \<notin> set (map Host_Name ms)" for nm
    unfolding off'_def res_def using loop_other [OF that, of rt token chatId th now "(offline, [])"]
    by simp
  have quiet: "checkOfflineStatus rt ms2 off' token chatId th now2 = (off', [])"
    if h: "\<forall>m2 \<in> set ms2. \<exists>m \<in> set ms. Host_Name m2 = Host_Name m
              \<and> (TimeStamp m2 < now2 - th) = (TimeStamp m < now - th)" for ms2 now2
  proof -
    have "sweepNotification th now2 off' m2 = None" if m2: "m2 \<in> set ms2" for m2
    proof -
      from h m2 obtain m where m: "m \<in> set ms" "Host_Name m2 = Host_Name m"
        "(TimeStamp m2 < now2 - th) = (TimeStamp m < now - th)" by blast
      from named [OF m(1)] obtain nm where nm: "Host_Name m = Some nm" "nm \<noteq> []" by blast
      show ?thesis
        using flag [OF m(1) nm] m(2,3) nm
        by (auto simp: sweepNotification_def)
    qed
    then have "checkOfflineStatus_loop rt token chatId th now2 ms2 (off', []) = (off', [])"
      using loop_quiet [of ms2 th now2 "(off', [])" rt token chatId] by simp
    then show ?thesis
      by (simp add: checkOfflineStatus_loop_eq [OF tok chat])
  qed
  have fetch: "checkOfflineStatus (rt\<lparr>fetch_sendMessage := f\<rparr>) ms offline token chatId th now
               = (off', sent)"
    using run tok chat by (simp add: checkOfflineStatus_def loop_fetch)
  have al: "offlineMap (fst (alarm rt env nowMs this)) = off' \<and> snd (alarm rt env nowMs this) = sent"
    if "ENABLE_TG env = js ''true'' \<and> TG_TOKEN env = token \<and> TG_CHAT_ID env = chatId
           \<and> offlineMap this = offline \<and> nowMs div 1000 = now"
    using that chat run alarm_sweep [of env rt nowMs this]
    by (simp add: ms_def th_def)
  show ?thesis
    unfolding th_def [symmetric] ms_def [symmetric] Let_def run split_conv
    using sent_eq per other quiet fetch al by blast
qed

lemma sweep_transitions_example:
  "js ''token'' \<noteq> [] \<and> js ''42'' \<noteq> [] \<and> js ''42'' \<noteq> js ''0''
   \<and> store_inv example_runtime example_stored
   \<and> checkOfflineStatus example_runtime (getAllMonitorData example_runtime example_stored) []
         (js ''token'') (js ''42'') OFFLINE_THRESHOLD_SEC 161
       = ([(js ''HK1'', True)], [Telegram (js ''token'') (js ''42'') (offlineMessage (js ''HK1''))])
   \<and> checkOfflineStatus example_runtime (getAllMonitorData example_runtime example_stored)
         [(js ''HK1'', True)] (js ''token'') (js ''42'') OFFLINE_THRESHOLD_SEC 181
       = ([(js ''HK1'', True)], [])
   \<and> store_inv example_runtime example_refreshed
   \<and> checkOfflineStatus example_runtime (getAllMonitorData example_runtime example_refreshed)
         [(js ''HK1'', True)] (js ''token'') (js ''42'') OFFLINE_THRESHOLD_SEC 161
       = ([], [Telegram (js ''token'') (js ''42'') (onlineMessage (js ''HK1''))])
   \<and> count_list
         (snd (checkOfflineStatus example_runtime
                 (getAllMonitorData example_runtime example_refreshed)
                 [(js ''HK1'', True)] (js ''token'') (js ''42'') OFFLINE_THRESHOLD_SEC 161))
         (Telegram (js ''token'') (js ''42'') (onlineMessage (js ''HK1''))) = 1"
proof -
  note first = sweep_transitions [OF example_token example_stored_inv,
      of "[]" 161 "\<lambda>token chatId txt. Inl TypeError" example_env 161000,
      unfolded Let_def example_sweep1 split_conv]
  note second = sweep_transitions [OF example_token example_refreshed_inv,
      of "[(js ''HK1'', True)]" 161 "\<lambda>token chatId txt. Inl TypeError" example_env 161000,
      unfolded Let_def example_sweep2 split_conv]
  have same: "\<forall>m2 \<in> set (getAllMonitorData example_runtime example_stored).
          \<exists>m \<in> set (getAllMonitorData example_runtime example_stored).
            Host_Name m2 = Host_Name m
            \<and> (TimeStamp m2 < 181 - OFFLINE_THRESHOLD_SEC) = (TimeStamp m < 161 - OFFLINE_THRESHOLD_SEC)"
    by (simp add: example_getAll_stored OFFLINE_THRESHOLD_SEC_def)
  have quiet: "checkOfflineStatus example_runtime (getAllMonitorData example_runtime example_stored)
         [(js ''HK1'', True)] (js ''token'') (js ''42'') OFFLINE_THRESHOLD_SEC 181
       = ([(js ''HK1'', True)], [])"
    using first [THEN conjunct2, THEN conjunct2, THEN conjunct2, THEN conjunct1,
        THEN spec, THEN spec, THEN mp, OF same] .
  have "\<forall>m \<in> set (getAllMonitorData example_runtime example_refreshed).
            \<exists>nm. Host_Name m = Some nm \<and> nm \<noteq> []
              \<and> (Map_get [] nm = Some True) = (TimeStamp m < 161 - OFFLINE_THRESHOLD_SEC)
              \<and> count_list [Telegram (js ''token'') (js ''42'') (onlineMessage (js ''HK1''))]
                    (Telegram (js ''token'') (js ''42'') (offlineMessage nm))
                  = (if TimeStamp m < 161 - OFFLINE_THRESHOLD_SEC
                        \<and> Map_get [(js ''HK1'', True)] nm \<noteq> Some True
                     then 1 else 0)
              \<and> count_list [Telegram (js ''token'') (js ''42'') (onlineMessage (js ''HK1''))]
                    (Telegram (js ''token'') (js ''42'') (onlineMessage nm))
                  = (if TimeStamp m \<ge> 161 - OFFLINE_THRESHOLD_SEC
                        \<and> Map_get [(js ''HK1'', True)] nm = Some True
                     then 1 else 0)"
    using second [THEN conjunct2, THEN conjunct1] .
  then have one: "count_list
         (snd (checkOfflineStatus example_runtime
                 (getAllMonitorData example_runtime example_refreshed)
                 [(js ''HK1'', True)] (js ''token'') (js ''42'') OFFLINE_THRESHOLD_SEC 161))
         (Telegram (js ''token'') (js ''42'') (onlineMessage (js ''HK1''))) = 1"
    by (simp add: example_sweep2)
  show ?thesis
    using example_token example_stored_inv example_refreshed_inv example_sweep1 example_sweep2
      quiet one
    by blast
qed

section \<open>Restoring the store at startup\<close>

lemma restore_loop_eq:
  "restore_loop rt now entries (md, del)
   = (foldl (loadEntry rt now) md entries,
      del @ map fst (filter (\<lambda>e. restoredName rt now (snd e) = None) entries))"
proof (induction entries arbitrary: md del)
  case Nil
  show ?case by simp
next
  case (Cons e entries)
  obtain k v where e: "e = (k, v)" by (cases e)
  show ?case
    unfolding e
    by (cases "JSON_parse rt v"; cases "Host_Name (projr (JSON_parse rt v))")
      (simp_all add: Cons.IH restoredName_def loadEntry_def)
qed

lemma storage_delete_all_Nil: "storage_delete_all st [] = st"
  by (simp add: storage_delete_all_def)

lemma MonitorDO_new_eq:
  "MonitorDO_new rt nowMs socks st al =
     \<lparr>monitorData = foldl (loadEntry rt (nowMs div 1000)) [] (storage_list st (js ''monitor:'')),
      offlineMap = [], initialized = True, cachedViewerPayload = None, webSockets = socks,
      storage =
        storage_delete_all st
          (map fst (filter (\<lambda>e. restoredName rt (nowMs div 1000) (snd e) = None)
                      (storage_list st (js ''monitor:'')))),
      alarmTime = al\<rparr>"
  by (simp add: MonitorDO_new_def restoreMonitorSnapshot_def restore_loop_eq Let_def
      storage_delete_all_Nil)

lemma set_Map_set: "set (Map_set m k v) \<subseteq> insert (k, v) (set m)"
  by (induction m) (auto split: if_splits)

lemma loadEntry_None: "restoredName rt now (snd e) = None \<Longrightarrow> loadEntry rt now md e = md"
  by (simp add: loadEntry_def)

lemma loadEntry_Some:
  "restoredName rt now (snd e) = Some nm \<Longrightarrow> loadEntry rt now md e = Map_set md nm (snd e)"
  by (simp add: loadEntry_def)

lemma load_keys:
  "fst ` set (foldl (loadEntry rt now) md entries)
   = fst ` set md \<union> {nm. \<exists>e \<in> set entries. restoredName rt now (snd e) = Some nm}"
proof (induction entries arbitrary: md)
  case Nil
  show ?case by simp
next
  case (Cons e entries)
  show ?case
    by (cases "restoredName rt now (snd e)")
      (auto simp: Cons.IH loadEntry_None loadEntry_Some set_keys_Map_set)
qed

lemma load_distinct:
  "distinct (map fst md) \<Longrightarrow> distinct (map fst (foldl (loadEntry rt now) md entries))"
proof (induction entries arbitrary: md)
  case Nil
  then show ?case by simp
next
  case (Cons e entries)
  then show ?case
    by (cases "restoredName rt now (snd e)")
      (simp_all add: loadEntry_None loadEntry_Some distinct_Map_set)
qed

lemma load_elems:
  "(nm, v) \<in> set (foldl (loadEntry rt now) md entries)
   \<Longrightarrow> (nm, v) \<in> set md \<or> (\<exists>k. (k, v) \<in> set entries \<and> restoredName rt now v = Some nm)"
proof (induction entries arbitrary: md)
  case Nil
  then show ?case by simp
next
  case (Cons e entries)
  from Cons.IH [OF Cons.prems [simplified]] show ?case
  proof
    assume "(nm, v) \<in> set (loadEntry rt now md e)"
    then show ?thesis
      using set_Map_set [of md _ "snd e"]
      by (cases e; cases "restoredName rt now (snd e)")
        (auto simp: loadEntry_None loadEntry_Some)
  next
    assume "\<exists>k. (k, v) \<in> set entries \<and> restoredName rt now v = Some nm"
    then show ?thesis by auto
  qed
qed

lemma load_other:
  "\<forall>e \<in> set entries. restoredName rt now (snd e) \<noteq> Some nm
   \<Longrightarrow> map_of (foldl (loadEntry rt now) md entries) nm = map_of md nm"
proof (induction entries arbitrary: md)
  case Nil
  then show ?case by simp
next
  case (Cons e entries)
  then show ?case
    by (cases "restoredName rt now (snd e)")
      (auto simp: loadEntry_None loadEntry_Some map_of_Map_set)
qed

lemma load_lookup:
  assumes "distinct (List.map_filter (\<lambda>e. restoredName rt now (snd e)) entries)"
    and "(k, v) \<in> set entries" and "restoredName rt now v = Some nm"
  shows "map_of (foldl (loadEntry rt now) md entries) nm = Some v"
  using assms
proof (induction entries arbitrary: md)
  case Nil
  then show ?case by simp
next
  case (Cons e entries)
  show ?case
  proof (cases "restoredName rt now (snd e)")
    case None
    with Cons.prems have "(k, v) \<in> set entries"
      and "distinct (List.map_filter (\<lambda>e. restoredName rt now (snd e)) entries)"
      by auto
    from Cons.IH [OF this(2,1) Cons.prems(3)] None show ?thesis
      by (simp add: loadEntry_None)
  next
    case (Some nm')
    have d: "distinct (List.map_filter (\<lambda>e. restoredName rt now (snd e)) entries)"
      and fresh: "nm' \<notin> set (List.map_filter (\<lambda>e. restoredName rt now (snd e)) entries)"
      using Cons.prems(1) Some by simp_all
    show ?thesis
    proof (cases "nm' = nm")
      case True
      have none: "\<forall>e \<in> set entries. restoredName rt now (snd e) \<noteq> Some nm"
        using fresh True by (force simp: List.map_filter_def)
      then have "(k, v) \<notin> set entries"
        using Cons.prems(3) by force
      then have "e = (k, v)" using Cons.prems(2) by simp
      then show ?thesis
        using Some True load_other [OF none] by (simp add: loadEntry_Some map_of_Map_set)
    next
      case False
      then have "e \<noteq> (k, v)" using Some Cons.prems(3) by auto
      then have "(k, v) \<in> set entries" using Cons.prems(2) by simp
      from Cons.IH [OF d this Cons.prems(3)] show ?thesis by simp
    qed
  qed
qed

lemma restoredName_iff:
  "restoredName rt now v = Some nm
   \<longleftrightarrow> (\<exists>m. JSON_parse rt v = Inr m \<and> Host_Name m = Some nm \<and> nm \<noteq> []
            \<and> TimeStamp m > now - SNAPSHOT_MAX_AGE_SEC)"
  by (auto simp: restoredName_def split: sum.splits option.splits if_splits)

lemma storage_list_prefix: "e \<in> set (storage_list st pfx) \<Longrightarrow> take (length pfx) (fst e) = pfx"
  by (simp add: storage_list_def)

lemma storage_list_subset: "e \<in> set (storage_list st pfx) \<Longrightarrow> e \<in> set st"
  by (simp add: storage_list_def)

lemma example_entries:
  "storage_list example_storage (js ''monitor:'')
   = [(js ''monitor:OLD'', js ''{OLD:100''), (js ''monitor:NEW'', js ''{NEW:400''),
      (js ''monitor:BAD'', js ''garbage'')]"
  by (simp add: storage_list_def example_storage_def js_def)

lemma example_restoredName:
  "restoredName example_runtime 500 (js ''{OLD:100'') = None"
  "restoredName example_runtime 500 (js ''{NEW:400'') = Some (js ''NEW'')"
  "restoredName example_runtime 500 (js ''garbage'') = None"
  by (simp_all add: restoredName_def example_runtime_def example_JSON_parse_def js_def
      mathInt_def Host_Name_def SNAPSHOT_MAX_AGE_SEC_def)

lemma example_restored:
  "MonitorDO_new example_runtime 500000 [] example_storage None
   = \<lparr>monitorData = [(js ''NEW'', js ''{NEW:400'')], offlineMap = [], initialized = True,
      cachedViewerPayload = None, webSockets = [],
      storage = [(js ''monitor:NEW'', js ''{NEW:400''), (js ''host:NEW'', js ''meta'')],
      alarmTime = None\<rparr>"
  by (simp add: MonitorDO_new_eq example_entries example_restoredName loadEntry_def
      storage_delete_all_def)
    (simp add: example_storage_def js_def)

lemma example_storage_distinct: "distinct (map fst example_storage)"
  by (simp add: example_storage_def js_def)

text \<open>
  C6. The constructor builds the object over what the runtime kept and restores it
  before any event is handled: the initial object and the object after an eviction
  are its results. It lists the durable entries with key prefix \<^verbatim>\<open>monitor:\<close>. An
  entry is loaded exactly when its value parses to a snapshot with a non-empty
  \<^verbatim>\<open>Host.Name\<close> and \<open>TimeStamp > now - 300\<close>; the keys of the restored store are the
  names of these entries, each value is stored under its name (no two loaded entries
  sharing a name), and the entry stays in storage (storage keys being distinct). Every
  other listed entry (parse failure, no name, or \<open>TimeStamp \<le> now - 300\<close>) is not
  loaded and its key is gone from storage; the storage afterwards is the result of one
  delete of exactly these keys, and entries under other prefixes are kept. A snapshot
  with \<open>TimeStamp = now - 400\<close> is not restored, one with a name and
  \<open>TimeStamp = now - 100\<close> is.
\<close>

theorem C6_restore:
  "let now = nowMs div 1000;
       entries = storage_list st (js ''monitor:'');
       this' = MonitorDO_new rt nowMs socks st al
   in storage this'
        = storage_delete_all st
            (map fst (filter (\<lambda>e. restoredName rt now (snd e) = None) entries))
      \<and> fst ` set (monitorData this') = {nm. \<exists>e \<in> set entries. restoredName rt now (snd e) = Some nm}
      \<and> (\<forall>k v nm. (k, v) \<in> set entries \<and> restoredName rt now v = Some nm
            \<longrightarrow> nm \<in> fst ` set (monitorData this')
                \<and> (distinct (List.map_filter (\<lambda>e. restoredName rt now (snd e)) entries)
                     \<longrightarrow> Map_get (monitorData this') nm = Some v)
                \<and> (distinct (map fst st) \<longrightarrow> (k, v) \<in> set (storage this')))
      \<and> (\<forall>k v. (k, v) \<in> set entries \<and> restoredName rt now v = None
            \<longrightarrow> k \<notin> fst ` set (storage this') \<and> v \<notin> snd ` set (monitorData this'))
      \<and> (\<forall>e \<in> set st. take (length (js ''monitor:'')) (fst e) \<noteq> js ''monitor:''
            \<longrightarrow> e \<in> set (storage this'))
      \<and> (\<forall>v nm. restoredName rt now v = Some nm
            \<longleftrightarrow> (\<exists>m. JSON_parse rt v = Inr m \<and> Host_Name m = Some nm \<and> nm \<noteq> []
                     \<and> TimeStamp m > now - SNAPSHOT_MAX_AGE_SEC))
      \<and> (\<forall>v m. JSON_parse rt v = Inr m \<and> TimeStamp m = now - 400
            \<longrightarrow> restoredName rt now v = None)
      \<and> (\<forall>v m nm. JSON_parse rt v = Inr m \<and> Host_Name m = Some nm \<and> nm \<noteq> []
              \<and> TimeStamp m = now - 100
            \<longrightarrow> restoredName rt now v = Some nm)
      \<and> initialized this' \<and> offlineMap this' = [] \<and> cachedViewerPayload this' = None
      \<and> webSockets this' = socks \<and> alarmTime this' = al
      \<and> initial rt nowMs = MonitorDO_new rt nowMs [] [] None
      \<and> fst (step rt env nowMs this Evicted)
          = MonitorDO_new rt nowMs (webSockets this) (storage this) (alarmTime this)"
proof -
  define now where "now = nowMs div 1000"
  define entries where "entries = storage_list st (js ''monitor:'')"
  define this' where "this' = MonitorDO_new rt nowMs socks st al"
  define dels where "dels = map fst (filter (\<lambda>e. restoredName rt now (snd e) = None) entries)"
  have md: "monitorData this' = foldl (loadEntry rt now) [] entries"
    and st: "storage this' = storage_delete_all st dels"
    and rest: "initialized this'" "offlineMap this' = []" "cachedViewerPayload this' = None"
      "webSockets this' = socks" "alarmTime this' = al"
    by (simp_all add: this'_def MonitorDO_new_eq now_def entries_def dels_def)
  have keys: "fst ` set (monitorData this') = {nm. \<exists>e \<in> set entries. restoredName rt now (snd e) = Some nm}"
    by (simp add: md load_keys)
  have loaded: "nm \<in> fst ` set (monitorData this')
                \<and> (distinct (List.map_filter (\<lambda>e. restoredName rt now (snd e)) entries)
                     \<longrightarrow> Map_get (monitorData this') nm = Some v)
                \<and> (distinct (map fst st) \<longrightarrow> (k, v) \<in> set (storage this'))"
    if kv: "(k, v) \<in> set entries \<and> restoredName rt now v = Some nm" for k v nm
  proof (intro conjI impI)
    show "nm \<in> fst ` set (monitorData this')"
      using kv unfolding keys by force
    show "Map_get (monitorData this') nm = Some v"
      if "distinct (List.map_filter (\<lambda>e. restoredName rt now (snd e)) entries)"
      using load_lookup [OF that, of k v nm "[]"] kv by (simp add: md Map_get_def)
    show "(k, v) \<in> set (storage this')" if d: "distinct (map fst st)"
    proof -
      have in_st: "(k, v) \<in> set st"
        using kv storage_list_subset unfolding entries_def by fast
      have "k \<notin> set dels"
      proof
        assume "k \<in> set dels"
        then obtain v' where v': "(k, v') \<in> set entries" "restoredName rt now v' = None"
          by (auto simp: dels_def)
        then have "(k, v') \<in> set st"
          using storage_list_subset unfolding entries_def by fast
        with in_st d have "v' = v"
          by (meson eq_key_imp_eq_value)
        with v' kv show False by simp
      qed
      with in_st show ?thesis
        by (simp add: st storage_delete_all_def)
    qed
  qed
  have dropped: "k \<notin> fst ` set (storage this') \<and> v \<notin> snd ` set (monitorData this')"
    if kv: "(k, v) \<in> set entries \<and> restoredName rt now v = None" for k v
  proof
    have "k \<in> set dels"
      using kv by (force simp: dels_def)
    then show "k \<notin> fst ` set (storage this')"
      by (auto simp: st storage_delete_all_def)
    show "v \<notin> snd ` set (monitorData this')"
    proof
      assume "v \<in> snd ` set (monitorData this')"
      then obtain nm where "(nm, v) \<in> set (foldl (loadEntry rt now) [] entries)"
        by (auto simp: md)
      from load_elems [OF this] kv show False by simp
    qed
  qed
  have kept: "e \<in> set (storage this')"
    if e: "e \<in> set st" and p: "take (length (js ''monitor:'')) (fst e) \<noteq> js ''monitor:''" for e
  proof -
    have "fst e \<notin> set dels"
    proof
      assume "fst e \<in> set dels"
      then obtain e' where "e' \<in> set entries" "fst e' = fst e"
        by (auto simp: dels_def)
      with p storage_list_prefix [of e' st "js ''monitor:''"] show False
        by (simp add: entries_def)
    qed
    with e show ?thesis by (simp add: st storage_delete_all_def)
  qed
  have old: "restoredName rt now v = None" if "JSON_parse rt v = Inr m \<and> TimeStamp m = now - 400" for v m
    using that by (simp add: restoredName_def SNAPSHOT_MAX_AGE_SEC_def split: option.splits)
  have young: "restoredName rt now v = Some nm"
    if "JSON_parse rt v = Inr m \<and> Host_Name m = Some nm \<and> nm \<noteq> [] \<and> TimeStamp m = now - 100" for v m nm
    using that by (simp add: restoredName_def SNAPSHOT_MAX_AGE_SEC_def)
  have ini: "initial rt nowMs = MonitorDO_new rt nowMs [] [] None"
    by (simp add: initial_def)
  have ev: "fst (step rt env nowMs this Evicted)
          = MonitorDO_new rt nowMs (webSockets this) (storage this) (alarmTime this)"
    by (simp add: step_def)
  show ?thesis
    unfolding Let_def now_def [symmetric] entries_def [symmetric] this'_def [symmetric]
  proof (intro conjI)
    show "storage this'
          = storage_delete_all st
              (map fst (filter (\<lambda>e. restoredName rt now (snd e) = None) entries))"
      by (rule st [unfolded dels_def])
    show "fst ` set (monitorData this') = {nm. \<exists>e \<in> set entries. restoredName rt now (snd e) = Some nm}"
      by (rule keys)
    show "\<forall>k v nm. (k, v) \<in> set entries \<and> restoredName rt now v = Some nm
            \<longrightarrow> nm \<in> fst ` set (monitorData this')
                \<and> (distinct (List.map_filter (\<lambda>e. restoredName rt now (snd e)) entries)
                     \<longrightarrow> Map_get (monitorData this') nm = Some v)
                \<and> (distinct (map fst st) \<longrightarrow> (k, v) \<in> set (storage this'))"
      by (intro allI impI) (rule loaded)
    show "\<forall>k v. (k, v) \<in> set entries \<and> restoredName rt now v = None
            \<longrightarrow> k \<notin> fst ` set (storage this') \<and> v \<notin> snd ` set (monitorData this')"
      by (intro allI impI) (rule dropped)
    show "\<forall>e \<in> set st. take (length (js ''monitor:'')) (fst e) \<noteq> js ''monitor:''
            \<longrightarrow> e \<in> set (storage this')"
      by (intro ballI impI) (rule kept)
    show "\<forall>v nm. restoredName rt now v = Some nm
            \<longleftrightarrow> (\<exists>m. JSON_parse rt v = Inr m \<and> Host_Name m = Some nm \<and> nm \<noteq> []
                     \<and> TimeStamp m > now - SNAPSHOT_MAX_AGE_SEC)"
      by (intro allI) (rule restoredName_iff)
    show "\<forall>v m. JSON_parse rt v = Inr m \<and> TimeStamp m = now - 400
            \<longrightarrow> restoredName rt now v = None"
      by (intro allI impI) (rule old)
    show "\<forall>v m nm. JSON_parse rt v = Inr m \<and> Host_Name m = Some nm \<and> nm \<noteq> []
              \<and> TimeStamp m = now - 100
            \<longrightarrow> restoredName rt now v = Some nm"
      by (intro allI impI) (rule young)
  qed (use rest ini ev in simp_all)
qed

theorem C6_witness:
  "(js ''monitor:NEW'', js ''{NEW:400'') \<in> set (storage_list example_storage (js ''monitor:''))
   \<and> restoredName example_runtime 500 (js ''{NEW:400'') = Some (js ''NEW'')
   \<and> distinct (List.map_filter (\<lambda>e. restoredName example_runtime 500 (snd e))
                 (storage_list example_storage (js ''monitor:'')))
   \<and> distinct (map fst example_storage)
   \<and> Map_get (monitorData (MonitorDO_new example_runtime 500000 [] example_storage None))
         (js ''NEW'') = Some (js ''{NEW:400'')
   \<and> (js ''monitor:NEW'', js ''{NEW:400'')
       \<in> set (storage (MonitorDO_new example_runtime 500000 [] example_storage None))
   \<and> (js ''monitor:OLD'', js ''{OLD:100'') \<in> set (storage_list example_storage (js ''monitor:''))
   \<and> restoredName example_runtime 500 (js ''{OLD:100'') = None
   \<and> js ''monitor:OLD''
       \<notin> fst ` set (storage (MonitorDO_new example_runtime 500000 [] example_storage None))
   \<and> js ''{OLD:100''
       \<notin> snd ` set (monitorData (MonitorDO_new example_runtime 500000 [] example_storage None))
   \<and> (js ''host:NEW'', js ''meta'') \<in> set example_storage
   \<and> take (length (js ''monitor:'')) (fst (js ''host:NEW'', js ''meta'')) \<noteq> js ''monitor:''
   \<and> (js ''host:NEW'', js ''meta'')
       \<in> set (storage (MonitorDO_new example_runtime 500000 [] example_storage None))
   \<and> MonitorDO_new example_runtime 500000 [] example_storage None
       = \<lparr>monitorData = [(js ''NEW'', js ''{NEW:400'')], offlineMap = [], initialized = True,
          cachedViewerPayload = None, webSockets = [],
          storage = [(js ''monitor:NEW'', js ''{NEW:400''), (js ''host:NEW'', js ''meta'')],
          alarmTime = None\<rparr>"
proof -
  have div500: "500000 div 1000 = (500 :: int)" by simp
  note T = C6_restore [of 500000 example_storage example_runtime "[]" None example_env
      example_authed, unfolded Let_def div500]
  have new: "(js ''monitor:NEW'', js ''{NEW:400'') \<in> set (storage_list example_storage (js ''monitor:''))"
    and old: "(js ''monitor:OLD'', js ''{OLD:100'') \<in> set (storage_list example_storage (js ''monitor:''))"
    by (simp_all add: example_entries)
  have d: "distinct (List.map_filter (\<lambda>e. restoredName example_runtime 500 (snd e))
                 (storage_list example_storage (js ''monitor:'')))"
    by (simp add: example_entries example_restoredName)
  have host: "(js ''host:NEW'', js ''meta'') \<in> set example_storage"
    "take (length (js ''monitor:'')) (fst (js ''host:NEW'', js ''meta'')) \<noteq> js ''monitor:''"
    by (simp_all add: example_storage_def js_def)
  note loaded = T [THEN conjunct2, THEN conjunct2, THEN conjunct1, THEN spec, THEN spec,
      THEN spec, THEN mp, OF conjI [OF new example_restoredName(2)]]
  note dropped = T [THEN conjunct2, THEN conjunct2, THEN conjunct2, THEN conjunct1, THEN spec,
      THEN spec, THEN mp, OF conjI [OF old example_restoredName(1)]]
  note kept = T [THEN conjunct2, THEN conjunct2, THEN conjunct2, THEN conjunct2, THEN conjunct1,
      THEN bspec, OF host(1), THEN mp, OF host(2)]
  have 1: "Map_get (monitorData (MonitorDO_new example_runtime 500000 [] example_storage None))
         (js ''NEW'') = Some (js ''{NEW:400'')"
    using loaded [THEN conjunct2, THEN conjunct1, THEN mp, OF d] .
  have 2: "(js ''monitor:NEW'', js ''{NEW:400'')
       \<in> set (storage (MonitorDO_new example_runtime 500000 [] example_storage None))"
    using loaded [THEN conjunct2, THEN conjunct2, THEN mp, OF example_storage_distinct] .
  show ?thesis
    using new example_restoredName(1,2) d example_storage_distinct 1 2 old dropped host kept
      example_restored
    by blast
qed

section \<open>The store never exceeds its capacity\<close>

lemma store_inv_alt:
  "store_inv rt this \<longleftrightarrow>
     length (monitorData this) \<le> 500 \<and> distinct (map fst (monitorData this))
     \<and> (\<forall>k v. (k, v) \<in> set (monitorData this)
           \<longrightarrow> k \<noteq> [] \<and> (\<exists>data. JSON_parse rt v = Inr data \<and> Host_Name data = Some k))"
  by (auto simp: store_inv_def Map_size_def MONITOR_DATA_MAX_ENTRIES_def)

lemma durable_inv_alt:
  "durable_inv rt this \<longleftrightarrow>
     distinct (map fst (storage this))
     \<and> (\<forall>key v. (key, v) \<in> set (storage this)
             \<and> take (length (js ''monitor:'')) key = js ''monitor:''
           \<longrightarrow> (\<exists>k data. key = monitorKey k \<and> k \<in> fst ` set (monitorData this)
                  \<and> JSON_parse rt v = Inr data \<and> Host_Name data = Some k))"
  by (auto simp: durable_inv_def storage_list_def Map_has_iff)

lemma durable_invI:
  assumes "distinct (map fst (storage this))"
    and "\<And>key v. (key, v) \<in> set (storage this)
           \<Longrightarrow> take (length (js ''monitor:'')) key = js ''monitor:''
           \<Longrightarrow> \<exists>k data. key = monitorKey k \<and> k \<in> fst ` set (monitorData this)
                  \<and> JSON_parse rt v = Inr data \<and> Host_Name data = Some k"
  shows "durable_inv rt this"
  unfolding durable_inv_alt using assms by blast

lemma durable_invD:
  assumes "durable_inv rt this" and "(key, v) \<in> set (storage this)"
    and "take (length (js ''monitor:'')) key = js ''monitor:''"
  obtains k data where "key = monitorKey k" "k \<in> fst ` set (monitorData this)"
    "JSON_parse rt v = Inr data" "Host_Name data = Some k"
  using assms unfolding durable_inv_alt by blast

lemma durable_inv_ex:
  assumes "durable_inv rt this" and "(key, v) \<in> set (storage this)"
    and "take (length (js ''monitor:'')) key = js ''monitor:''"
  shows "\<exists>k data. key = monitorKey k \<and> k \<in> fst ` set (monitorData this)
           \<and> JSON_parse rt v = Inr data \<and> Host_Name data = Some k"
  using assms unfolding durable_inv_alt by blast

lemma durable_inv_distinct: "durable_inv rt this \<Longrightarrow> distinct (map fst (storage this))"
  by (simp add: durable_inv_alt)

lemma inv_cong:
  assumes "monitorData a = monitorData b" "storage a = storage b"
  shows "store_inv rt a = store_inv rt b" "durable_inv rt a = durable_inv rt b"
  using assms by (simp_all add: store_inv_alt durable_inv_alt)

lemma decodeSnapshot_parse:
  "decodeSnapshot rt message = Some (jsonStr, data) \<Longrightarrow> JSON_parse rt jsonStr = Inr data"
  by (auto simp: decodeSnapshot_def split: sum.splits option.splits)

lemma Map_set_store:
  assumes inv: "store_inv rt this"
    and p: "JSON_parse rt jsonStr = Inr data" "Host_Name data = Some nm" "nm \<noteq> []"
    and room: "nm \<in> fst ` set (monitorData this) \<or> length (monitorData this) < 500"
    and md: "monitorData this' = Map_set (monitorData this) nm jsonStr"
  shows "store_inv rt this'"
  unfolding store_inv_alt
proof (intro conjI allI impI)
  show "length (monitorData this') \<le> 500"
    using inv room by (auto simp: md length_Map_set store_inv_alt)
  show "distinct (map fst (monitorData this'))"
    using inv by (simp add: md distinct_Map_set store_inv_alt)
next
  fix k v assume "(k, v) \<in> set (monitorData this')"
  then have "(k, v) = (nm, jsonStr) \<or> (k, v) \<in> set (monitorData this)"
    using set_Map_set [of "monitorData this" nm jsonStr] by (auto simp: md)
  then show "k \<noteq> []" and "\<exists>data. JSON_parse rt v = Inr data \<and> Host_Name data = Some k"
    using inv p by (auto simp: store_inv_alt)
qed

lemma handleAgentData_cases:
  "handleAgentData rt this w message = (this, [])
   \<or> (\<exists>jsonStr data nm.
        decodeSnapshot rt message = Some (jsonStr, data) \<and> Host_Name data = Some nm \<and> nm \<noteq> []
        \<and> (nm \<in> fst ` set (monitorData this) \<or> length (monitorData this) < 500)
        \<and> handleAgentData rt this w message
            = broadcastToViewers rt
                (this\<lparr>monitorData := Map_set (monitorData this) nm jsonStr,
                      cachedViewerPayload := None\<rparr>))"
  by (auto simp: handleAgentData_decoded Map_has_iff Map_size_def MONITOR_DATA_MAX_ENTRIES_def
      split: option.splits)

lemma put_inv:
  assumes "store_inv rt this" "durable_inv rt this"
  shows "store_inv rt (fst (handleAgentData rt this w message))"
    and "durable_inv rt (fst (handleAgentData rt this w message))"
proof -
  from handleAgentData_cases [of rt this w message]
  have "store_inv rt (fst (handleAgentData rt this w message))
        \<and> durable_inv rt (fst (handleAgentData rt this w message))"
  proof
    assume "handleAgentData rt this w message = (this, [])"
    with assms show ?thesis by simp
  next
    assume "\<exists>jsonStr data nm.
        decodeSnapshot rt message = Some (jsonStr, data) \<and> Host_Name data = Some nm \<and> nm \<noteq> []
        \<and> (nm \<in> fst ` set (monitorData this) \<or> length (monitorData this) < 500)
        \<and> handleAgentData rt this w message
            = broadcastToViewers rt
                (this\<lparr>monitorData := Map_set (monitorData this) nm jsonStr,
                      cachedViewerPayload := None\<rparr>)"
    then obtain jsonStr data nm where
      d: "decodeSnapshot rt message = Some (jsonStr, data)" "Host_Name data = Some nm" "nm \<noteq> []"
      and room: "nm \<in> fst ` set (monitorData this) \<or> length (monitorData this) < 500"
      and eq: "handleAgentData rt this w message
            = broadcastToViewers rt
                (this\<lparr>monitorData := Map_set (monitorData this) nm jsonStr,
                      cachedViewerPayload := None\<rparr>)"
      by blast
    define this' where "this' = fst (handleAgentData rt this w message)"
    have md: "monitorData this' = Map_set (monitorData this) nm jsonStr"
      and st: "storage this' = storage this"
      by (simp_all add: this'_def eq broadcast_fields)
    have s: "store_inv rt this'"
      by (rule Map_set_store [OF assms(1) decodeSnapshot_parse [OF d(1)] d(2,3) room md])
    have "durable_inv rt this'"
    proof (rule durable_invI)
      show "distinct (map fst (storage this'))"
        using durable_inv_distinct [OF assms(2)] by (simp add: st)
    next
      fix key v
      assume kv: "(key, v) \<in> set (storage this')"
        and pf: "take (length (js ''monitor:'')) key = js ''monitor:''"
      from kv have "(key, v) \<in> set (storage this)" by (simp add: st)
      from durable_invD [OF assms(2) this pf] obtain k data' where
        "key = monitorKey k" "k \<in> fst ` set (monitorData this)"
        "JSON_parse rt v = Inr data'" "Host_Name data' = Some k" .
      moreover have "k \<in> fst ` set (monitorData this')"
        using \<open>k \<in> fst ` set (monitorData this)\<close> by (simp add: md set_keys_Map_set)
      ultimately show "\<exists>k data. key = monitorKey k \<and> k \<in> fst ` set (monitorData this')
                  \<and> JSON_parse rt v = Inr data \<and> Host_Name data = Some k"
        by blast
    qed
    with s show ?thesis by (simp add: this'_def)
  qed
  then show "store_inv rt (fst (handleAgentData rt this w message))"
    and "durable_inv rt (fst (handleAgentData rt this w message))"
    by simp_all
qed

lemma store_inv_subset:
  assumes "store_inv rt this" and "distinct (map fst (monitorData this'))"
    and "set (monitorData this') \<subseteq> set (monitorData this)"
    and "length (monitorData this') \<le> length (monitorData this)"
  shows "store_inv rt this'"
  unfolding store_inv_alt
proof (intro conjI allI impI)
  show "length (monitorData this') \<le> 500"
    using assms(1,4) by (simp add: store_inv_alt)
  show "distinct (map fst (monitorData this'))" by (rule assms(2))
next
  fix k v assume "(k, v) \<in> set (monitorData this')"
  then have "(k, v) \<in> set (monitorData this)" using assms(3) by (rule subsetD [rotated])
  then show "k \<noteq> []" and "\<exists>data. JSON_parse rt v = Inr data \<and> Host_Name data = Some k"
    using assms(1) unfolding store_inv_alt by blast+
qed

lemma delete_inv:
  assumes s: "store_inv rt this" and d: "durable_inv rt this"
  shows "store_inv rt (fst (rpcDeleteHost this nm :: MonitorDO \<times> ('h, 's) response))"
    and "durable_inv rt (fst (rpcDeleteHost this nm :: MonitorDO \<times> ('h, 's) response))"
proof -
  define this' where "this' = fst (rpcDeleteHost this nm :: MonitorDO \<times> ('h, 's) response)"
  show "store_inv rt (fst (rpcDeleteHost this nm :: MonitorDO \<times> ('h, 's) response))"
  proof (cases "Map_has (monitorData this) nm")
    case False
    with s show ?thesis by (simp add: rpcDeleteHost_def)
  next
    case True
    have md: "monitorData this' = Map_delete (monitorData this) nm"
      using True by (simp add: this'_def rpcDeleteHost_def)
    have "store_inv rt this'"
    proof (rule store_inv_subset [OF s])
      show "distinct (map fst (monitorData this'))"
        using s by (simp add: md distinct_Map_delete store_inv_alt)
      show "set (monitorData this') \<subseteq> set (monitorData this)"
        by (auto simp: md Map_delete_def)
      show "length (monitorData this') \<le> length (monitorData this)"
        by (simp add: md Map_delete_def)
    qed
    then show ?thesis by (simp add: this'_def)
  qed
  show "durable_inv rt (fst (rpcDeleteHost this nm :: MonitorDO \<times> ('h, 's) response))"
  proof (cases "Map_has (monitorData this) nm")
    case False
    with d show ?thesis by (simp add: rpcDeleteHost_def)
  next
    case True
    have md: "monitorData this' = Map_delete (monitorData this) nm"
      and st: "storage this' = Map_delete (storage this) (monitorKey nm)"
      using True by (simp_all add: this'_def rpcDeleteHost_def)
    have "durable_inv rt this'"
    proof (rule durable_invI)
      show "distinct (map fst (storage this'))"
        using durable_inv_distinct [OF d] by (simp add: st distinct_Map_delete)
    next
      fix key v
      assume kv: "(key, v) \<in> set (storage this')"
        and pf: "take (length (js ''monitor:'')) key = js ''monitor:''"
      from kv have old: "(key, v) \<in> set (storage this)" and ne: "key \<noteq> monitorKey nm"
        by (auto simp: st Map_delete_def)
      from durable_invD [OF d old pf] obtain k data where
        k: "key = monitorKey k" "k \<in> fst ` set (monitorData this)"
        "JSON_parse rt v = Inr data" "Host_Name data = Some k" .
      from k(1) ne have "k \<noteq> nm" by auto
      with k(2) have "k \<in> fst ` set (monitorData this')"
        by (force simp: md Map_delete_def)
      with k show "\<exists>k data. key = monitorKey k \<and> k \<in> fst ` set (monitorData this')
                  \<and> JSON_parse rt v = Inr data \<and> Host_Name data = Some k"
        by blast
    qed
    then show ?thesis by (simp add: this'_def)
  qed
qed

lemma update_inv:
  assumes s: "store_inv rt this" and d: "durable_inv rt this"
  shows "store_inv rt (fst (rpcUpdateInfo rt this req))"
    and "durable_inv rt (fst (rpcUpdateInfo rt this req))"
proof -
  show "store_inv rt (fst (rpcUpdateInfo rt this req))"
    using s by (simp add: store_inv_alt rpcUpdateInfo_def)
  show "durable_inv rt (fst (rpcUpdateInfo rt this req))"
  proof (rule durable_invI)
    show "distinct (map fst (storage (fst (rpcUpdateInfo rt this req))))"
      using durable_inv_distinct [OF d] by (simp add: rpcUpdateInfo_def distinct_Map_set)
  next
    fix key v
    assume kv: "(key, v) \<in> set (storage (fst (rpcUpdateInfo rt this req)))"
      and pf: "take (length (js ''monitor:'')) key = js ''monitor:''"
    from kv have "(key, v) = (hostKey (name req), JSON_stringify_HostInfo rt req)
                  \<or> (key, v) \<in> set (storage this)"
      using set_Map_set [of "storage this" "hostKey (name req)" "JSON_stringify_HostInfo rt req"]
      by (auto simp: rpcUpdateInfo_def)
    with pf hostKey_not_monitor [of "name req"] have old: "(key, v) \<in> set (storage this)"
      by auto
    from durable_inv_ex [OF d old pf] show "\<exists>k data. key = monitorKey k
        \<and> k \<in> fst ` set (monitorData (fst (rpcUpdateInfo rt this req)))
        \<and> JSON_parse rt v = Inr data \<and> Host_Name data = Some k"
      by (simp add: rpcUpdateInfo_def)
  qed
qed

lemma set_storage_put_all: "set (storage_put_all st puts) \<subseteq> set st \<union> set puts"
  unfolding storage_put_all_def
proof (induction puts arbitrary: st)
  case Nil
  show ?case by simp
next
  case (Cons p puts)
  obtain k v where p: "p = (k, v)" by (cases p)
  show ?case
    using Cons.IH [of "Map_set st k v"] set_Map_set [of st k v] by (auto simp: p)
qed

lemma distinct_storage_put_all:
  "distinct (map fst st) \<Longrightarrow> distinct (map fst (storage_put_all st puts))"
  unfolding storage_put_all_def
  by (induction puts arbitrary: st) (auto simp: distinct_Map_set)

lemma persist_inv:
  assumes s: "store_inv rt this" and d: "durable_inv rt this"
  shows "store_inv rt (persistMonitorSnapshot this)"
    and "durable_inv rt (persistMonitorSnapshot this)"
proof -
  have md: "monitorData (persistMonitorSnapshot this) = monitorData this"
    by (simp add: persistMonitorSnapshot_def Let_def)
  have st: "set (storage (persistMonitorSnapshot this))
            \<subseteq> set (storage this)
              \<union> set (map (\<lambda>(nm, jsonStr). (monitorKey nm, jsonStr)) (monitorData this))"
    using set_storage_put_all [of "storage this"
        "map (\<lambda>(nm, jsonStr). (monitorKey nm, jsonStr)) (monitorData this)"]
    by (simp add: persistMonitorSnapshot_def Let_def)
  show "store_inv rt (persistMonitorSnapshot this)"
    using s by (simp add: store_inv_alt md)
  show "durable_inv rt (persistMonitorSnapshot this)"
  proof (rule durable_invI)
    show "distinct (map fst (storage (persistMonitorSnapshot this)))"
      using durable_inv_distinct [OF d]
      by (simp add: persistMonitorSnapshot_def Let_def distinct_storage_put_all)
  next
    fix key v
    assume kv: "(key, v) \<in> set (storage (persistMonitorSnapshot this))"
      and pf: "take (length (js ''monitor:'')) key = js ''monitor:''"
    from kv st have "(key, v) \<in> set (storage this)
        \<or> (\<exists>k. key = monitorKey k \<and> (k, v) \<in> set (monitorData this))"
      by auto
    then show "\<exists>k data. key = monitorKey k
        \<and> k \<in> fst ` set (monitorData (persistMonitorSnapshot this))
        \<and> JSON_parse rt v = Inr data \<and> Host_Name data = Some k"
    proof
      assume "(key, v) \<in> set (storage this)"
      from durable_inv_ex [OF d this pf] show ?thesis by (simp add: md)
    next
      assume "\<exists>k. key = monitorKey k \<and> (k, v) \<in> set (monitorData this)"
      then obtain k where k: "key = monitorKey k" "(k, v) \<in> set (monitorData this)" by blast
      with s obtain data where "JSON_parse rt v = Inr data" "Host_Name data = Some k"
        unfolding store_inv_alt by blast
      with k show ?thesis by (force simp: md)
    qed
  qed
qed

lemma alarm_inv:
  assumes s: "store_inv rt this" and d: "durable_inv rt this"
  shows "store_inv rt (fst (alarm rt env nowMs this))"
    and "durable_inv rt (fst (alarm rt env nowMs this))"
proof -
  define this1 where "this1 =
    (if ENABLE_TG env = js ''true'' \<and> TG_CHAT_ID env \<noteq> [] \<and> TG_CHAT_ID env \<noteq> js ''0''
     then this\<lparr>offlineMap := fst (checkOfflineStatus rt (getAllMonitorData rt this)
                   (offlineMap this) (TG_TOKEN env) (TG_CHAT_ID env) OFFLINE_THRESHOLD_SEC
                   (nowMs div 1000))\<rparr>
     else this)"
  have f: "monitorData (fst (alarm rt env nowMs this)) = monitorData (persistMonitorSnapshot this1)"
    "storage (fst (alarm rt env nowMs this)) = storage (persistMonitorSnapshot this1)"
    by (simp_all add: alarm_def Let_def split_def this1_def persistMonitorSnapshot_def)
  have "store_inv rt this1" "durable_inv rt this1"
    using s d inv_cong [of this1 this rt] by (simp_all add: this1_def)
  from persist_inv [OF this] inv_cong [OF f, of rt]
  show "store_inv rt (fst (alarm rt env nowMs this))"
    and "durable_inv rt (fst (alarm rt env nowMs this))"
    by simp_all
qed

lemma distinct_subset_length:
  assumes "distinct xs" and "set xs \<subseteq> set ys"
  shows "length xs \<le> length ys"
proof -
  have "length xs = card (set xs)" using assms(1) by (simp add: distinct_card)
  also have "\<dots> \<le> card (set ys)" using assms(2) by (simp add: card_mono)
  also have "\<dots> \<le> length ys" by (rule card_length)
  finally show ?thesis .
qed

lemma in_storage_list:
  "e \<in> set (storage_list st pfx) \<longleftrightarrow> e \<in> set st \<and> take (length pfx) (fst e) = pfx"
  by (auto simp: storage_list_def)

lemma evicted_inv:
  assumes s: "store_inv rt this" and d: "durable_inv rt this"
  shows "store_inv rt (MonitorDO_new rt nowMs (webSockets this) (storage this) (alarmTime this))"
    and "durable_inv rt (MonitorDO_new rt nowMs (webSockets this) (storage this) (alarmTime this))"
proof -
  define now where "now = nowMs div 1000"
  define entries where "entries = storage_list (storage this) (js ''monitor:'')"
  define this' where
    "this' = MonitorDO_new rt nowMs (webSockets this) (storage this) (alarmTime this)"
  define dels where "dels = map fst (filter (\<lambda>e. restoredName rt now (snd e) = None) entries)"
  have md: "monitorData this' = foldl (loadEntry rt now) [] entries"
    and st: "storage this' = storage_delete_all (storage this) dels"
    by (simp_all add: this'_def MonitorDO_new_eq now_def entries_def dels_def)
  have name_of: "nm = k"
    if "restoredName rt now v = Some nm" "JSON_parse rt v = Inr data" "Host_Name data = Some k"
    for nm k v data
    using that by (auto simp: restoredName_iff)
  have entry: "\<exists>k data. key = monitorKey k \<and> k \<in> fst ` set (monitorData this)
           \<and> JSON_parse rt v = Inr data \<and> Host_Name data = Some k"
    if "(key, v) \<in> set entries" for key v
    using that durable_inv_ex [OF d, of key v] by (simp add: entries_def in_storage_list)
  have keys: "fst ` set (monitorData this')
              = {nm. \<exists>e \<in> set entries. restoredName rt now (snd e) = Some nm}"
    by (simp add: md load_keys)
  have sub: "set (map fst (monitorData this')) \<subseteq> set (map fst (monitorData this))"
  proof
    fix nm assume "nm \<in> set (map fst (monitorData this'))"
    then obtain e where e: "e \<in> set entries" "restoredName rt now (snd e) = Some nm"
      using keys by auto
    obtain key v where kv: "e = (key, v)" by (cases e)
    from entry [of key v] e kv obtain k data where
      k: "k \<in> fst ` set (monitorData this)" "JSON_parse rt v = Inr data" "Host_Name data = Some k"
      by auto
    from name_of [OF _ k(2,3), of nm] e kv have "nm = k" by simp
    with k(1) show "nm \<in> set (map fst (monitorData this))" by simp
  qed
  have dist: "distinct (map fst (monitorData this'))"
    by (simp add: md load_distinct)
  have "store_inv rt this'"
    unfolding store_inv_alt
  proof (intro conjI allI impI)
    have "length (map fst (monitorData this')) \<le> length (map fst (monitorData this))"
      by (rule distinct_subset_length [OF dist sub])
    then show "length (monitorData this') \<le> 500"
      using s by (simp add: store_inv_alt)
    show "distinct (map fst (monitorData this'))" by (rule dist)
  next
    fix k v assume "(k, v) \<in> set (monitorData this')"
    then have "restoredName rt now v = Some k"
      using load_elems [of k v rt now "[]" entries] by (auto simp: md)
    then show "k \<noteq> []" and "\<exists>data. JSON_parse rt v = Inr data \<and> Host_Name data = Some k"
      by (auto simp: restoredName_iff)
  qed
  moreover have "durable_inv rt this'"
  proof (rule durable_invI)
    show "distinct (map fst (storage this'))"
      using durable_inv_distinct [OF d] by (simp add: st storage_delete_all_def distinct_map_filter)
  next
    fix key v
    assume kv: "(key, v) \<in> set (storage this')"
      and pf: "take (length (js ''monitor:'')) key = js ''monitor:''"
    from kv have old: "(key, v) \<in> set (storage this)" and keep: "key \<notin> set dels"
      by (auto simp: st storage_delete_all_def)
    from old pf have e: "(key, v) \<in> set entries"
      by (simp add: entries_def in_storage_list)
    have "restoredName rt now v \<noteq> None"
    proof
      assume "restoredName rt now v = None"
      with e have "key \<in> set dels" by (force simp: dels_def)
      with keep show False by simp
    qed
    then obtain nm where nm: "restoredName rt now v = Some nm" by auto
    from entry [OF e] obtain k data where
      k: "key = monitorKey k" "JSON_parse rt v = Inr data" "Host_Name data = Some k"
      by auto
    from name_of [OF nm k(2,3)] have "nm = k" .
    moreover have "nm \<in> fst ` set (monitorData this')"
      using e nm unfolding keys by force
    ultimately show "\<exists>k data. key = monitorKey k \<and> k \<in> fst ` set (monitorData this')
                  \<and> JSON_parse rt v = Inr data \<and> Host_Name data = Some k"
      using k by blast
  qed
  ultimately show
    "store_inv rt (MonitorDO_new rt nowMs (webSockets this) (storage this) (alarmTime this))"
    and "durable_inv rt (MonitorDO_new rt nowMs (webSockets this) (storage this) (alarmTime this))"
    by (simp_all add: this'_def)
qed

lemma initial_inv: "store_inv rt (initial rt nowMs)" "durable_inv rt (initial rt nowMs)"
  by (simp_all add: initial_def MonitorDO_new_eq store_inv_alt durable_inv_alt storage_list_def
      storage_delete_all_def)

lemma webSocketMessage_inv:
  assumes s: "store_inv rt this" and d: "durable_inv rt this"
  shows "store_inv rt (fst (webSocketMessage rt env nowMs this w message))"
    and "durable_inv rt (fst (webSocketMessage rt env nowMs this w message))"
proof -
  have "fst (webSocketMessage rt env nowMs this w message) = fst (handleAgentData rt this w message)
        \<or> (monitorData (fst (webSocketMessage rt env nowMs this w message)) = monitorData this
            \<and> storage (fst (webSocketMessage rt env nowMs this w message)) = storage this)"
    by (simp add: webSocketMessage_def Let_def split_def ws_close_def ensureAlarm_def
        serializeAttachment_def getViewerPayload_fields split: option.splits message.splits)
  then show "store_inv rt (fst (webSocketMessage rt env nowMs this w message))"
    and "durable_inv rt (fst (webSocketMessage rt env nowMs this w message))"
    using put_inv [OF s d, of w message] s d
      inv_cong [of "fst (webSocketMessage rt env nowMs this w message)" this rt]
    by auto
qed

lemma handleRPC_inv:
  assumes s: "store_inv rt this" and d: "durable_inv rt this"
  shows "store_inv rt (fst (handleRPC rt this req))"
    and "durable_inv rt (fst (handleRPC rt this req))"
proof -
  have "store_inv rt (fst (handleRPC rt this req)) \<and> durable_inv rt (fst (handleRPC rt this req))"
  proof (cases req)
    case (updateInfo r)
    then show ?thesis using update_inv [OF s d, of r] by (simp add: handleRPC_def)
  next
    case (deleteHost nm)
    then show ?thesis
      using delete_inv [OF s d, of nm, where ?'h = 'a and ?'s = 'b]
      by (simp add: handleRPC_def)
  qed (use s d in \<open>simp_all add: handleRPC_def\<close>)
  then show "store_inv rt (fst (handleRPC rt this req))"
    and "durable_inv rt (fst (handleRPC rt this req))"
    by simp_all
qed

lemma step_inv:
  assumes s: "store_inv rt this" and d: "durable_inv rt this"
  shows "store_inv rt (fst (step rt env nowMs this ev))"
    and "durable_inv rt (fst (step rt env nowMs this ev))"
proof -
  have "store_inv rt (fst (step rt env nowMs this ev))
        \<and> durable_inv rt (fst (step rt env nowMs this ev))"
  proof (cases ev)
    case (Message w m)
    then show ?thesis using webSocketMessage_inv [OF s d] by (simp add: step_def)
  next
    case Alarm
    have "store_inv rt (this\<lparr>alarmTime := None\<rparr>)" "durable_inv rt (this\<lparr>alarmTime := None\<rparr>)"
      using s d inv_cong [of "this\<lparr>alarmTime := None\<rparr>" this rt] by simp_all
    from alarm_inv [OF this] Alarm show ?thesis by (simp add: step_def)
  next
    case (Rpc req)
    then show ?thesis using handleRPC_inv [OF s d] by (simp add: step_def)
  next
    case Evicted
    then show ?thesis using evicted_inv [OF s d] by (simp add: step_def)
  next
    case (UpgradeAgent w)
    then show ?thesis
      using s d inv_cong [of "handleAgentWebSocket this w" this rt]
      by (simp add: step_def handleAgentWebSocket_def)
  next
    case (UpgradeViewer w)
    then show ?thesis
      using s d inv_cong [of "handleViewerWebSocket this w" this rt]
      by (simp add: step_def handleViewerWebSocket_def)
  next
    case (Closed w)
    then show ?thesis
      using s d inv_cong [of "this\<lparr>webSockets := Map_delete (webSockets this) w\<rparr>" this rt]
      by (simp add: step_def webSocketClose_def)
  next
    case (Errored w)
    then show ?thesis
      using s d inv_cong [of "this\<lparr>webSockets := Map_delete (webSockets this) w\<rparr>" this rt]
      by (simp add: step_def webSocketError_def ws_close_def)
  qed
  then show "store_inv rt (fst (step rt env nowMs this ev))"
    and "durable_inv rt (fst (step rt env nowMs this ev))"
    by simp_all
qed

lemma run_inv:
  "store_inv rt this \<Longrightarrow> durable_inv rt this
   \<Longrightarrow> store_inv rt (run rt env this evs) \<and> durable_inv rt (run rt env this evs)"
proof (induction evs arbitrary: this)
  case Nil
  then show ?case by simp
next
  case (Cons e evs)
  obtain t ev where e: "e = (t, ev)" by (cases e)
  from Cons.IH [OF step_inv [OF Cons.prems, of env t ev]] show ?case
    by (simp add: e)
qed

lemma frameName_Some:
  "frameName rt m = Some nm
   \<longleftrightarrow> (\<exists>jsonStr data. decodeSnapshot rt m = Some (jsonStr, data) \<and> Host_Name data = Some nm)"
  by (auto simp: frameName_def split: option.splits)

lemma put_absent:
  assumes "frameName rt m = Some nm" "nm \<noteq> []" "nm \<notin> fst ` set (monitorData this)"
  shows "length (monitorData this) \<ge> 500 \<Longrightarrow> fst (handleAgentData rt this w m) = this"
    and "length (monitorData this) < 500
         \<Longrightarrow> \<exists>jsonStr. monitorData (fst (handleAgentData rt this w m))
                          = monitorData this @ [(nm, jsonStr)]"
proof -
  from assms(1) obtain jsonStr data where
    d: "decodeSnapshot rt m = Some (jsonStr, data)" "Host_Name data = Some nm"
    by (auto simp: frameName_Some)
  show "fst (handleAgentData rt this w m) = this" if "length (monitorData this) \<ge> 500"
    using d assms(2,3) that
    by (simp add: handleAgentData_decoded Map_has_iff Map_size_def MONITOR_DATA_MAX_ENTRIES_def)
  have app: "Map_set md nm jsonStr = md @ [(nm, jsonStr)]" if "nm \<notin> fst ` set md"
    for md :: "(jsstring \<times> jsstring) list"
    using that by (induction md) auto
  show "\<exists>jsonStr. monitorData (fst (handleAgentData rt this w m)) = monitorData this @ [(nm, jsonStr)]"
    if "length (monitorData this) < 500"
    using d assms(2,3) that app [OF assms(3)]
    by (simp add: handleAgentData_decoded Map_has_iff Map_size_def MONITOR_DATA_MAX_ENTRIES_def
        broadcast_fields)
qed

lemma putAll_Cons:
  "putAll rt this w (m # ms) = putAll rt (fst (handleAgentData rt this w m)) w ms"
  by (simp add: putAll_def)

lemma putAll_size:
  assumes "length (monitorData this) \<le> 500"
    and "distinct (map (frameName rt) ms)"
    and "list_all (\<lambda>m. truthy (frameName rt m)) ms"
    and "\<And>m nm. m \<in> set ms \<Longrightarrow> frameName rt m = Some nm \<Longrightarrow> nm \<notin> fst ` set (monitorData this)"
  shows "length (monitorData (putAll rt this w ms)) = min (length (monitorData this) + length ms) 500"
  using assms
proof (induction ms arbitrary: this)
  case Nil
  then show ?case by (simp add: putAll_def)
next
  case (Cons m ms)
  from Cons.prems(3) obtain nm where nm: "frameName rt m = Some nm" "nm \<noteq> []"
    by (auto simp: truthy_def split: option.splits)
  have absent: "nm \<notin> fst ` set (monitorData this)"
    using Cons.prems(4) [of m nm] nm by simp
  have d: "distinct (map (frameName rt) ms)" and t: "list_all (\<lambda>m. truthy (frameName rt m)) ms"
    using Cons.prems(2,3) by simp_all
  show ?case
  proof (cases "length (monitorData this) \<ge> 500")
    case True
    have same: "fst (handleAgentData rt this w m) = this"
      by (rule put_absent(1) [OF nm absent True])
    have "length (monitorData (putAll rt this w ms))
          = min (length (monitorData this) + length ms) 500"
      using Cons.prems(4) by (intro Cons.IH [OF Cons.prems(1) d t]) auto
    with True Cons.prems(1) show ?thesis
      by (simp add: putAll_Cons same)
  next
    case False
    then have room: "length (monitorData this) < 500" by simp
    from put_absent(2) [OF nm absent room, of w] obtain jsonStr where
      md: "monitorData (fst (handleAgentData rt this w m)) = monitorData this @ [(nm, jsonStr)]"
      by blast
    have others: "nm' \<notin> fst ` set (monitorData (fst (handleAgentData rt this w m)))"
      if "m' \<in> set ms" "frameName rt m' = Some nm'" for m' nm'
    proof -
      have "nm' \<notin> fst ` set (monitorData this)"
        using Cons.prems(4) [of m' nm'] that by simp
      moreover have "frameName rt m \<notin> frameName rt ` set ms"
        using Cons.prems(2) by simp
      then have "nm' \<noteq> nm"
        using that nm(1) by (metis imageI)
      ultimately show ?thesis by (simp add: md)
    qed
    have "length (monitorData (putAll rt (fst (handleAgentData rt this w m)) w ms))
          = min (length (monitorData (fst (handleAgentData rt this w m))) + length ms) 500"
      using room by (intro Cons.IH [OF _ d t others]) (simp_all add: md)
    then show ?thesis
      by (simp add: putAll_Cons md)
  qed
qed

lemma putAll_keys:
  "fst ` set (monitorData (putAll rt this w ms))
   \<subseteq> fst ` set (monitorData this) \<union> {nm. \<exists>m \<in> set ms. frameName rt m = Some nm}"
proof (induction ms arbitrary: this)
  case Nil
  show ?case by (simp add: putAll_def)
next
  case (Cons m ms)
  have one: "fst ` set (monitorData (fst (handleAgentData rt this w m)))
        \<subseteq> fst ` set (monitorData this) \<union> {nm. frameName rt m = Some nm}"
  proof -
    from handleAgentData_cases [of rt this w m]
    consider "handleAgentData rt this w m = (this, [])"
      | jsonStr nm where "frameName rt m = Some nm"
          "monitorData (fst (handleAgentData rt this w m)) = Map_set (monitorData this) nm jsonStr"
      by (auto simp: broadcast_fields frameName_Some)
    then show ?thesis
    proof cases
      case 1
      then show ?thesis by auto
    next
      case 2
      have "fst ` set (monitorData (fst (handleAgentData rt this w m)))
            = insert nm (fst ` set (monitorData this))"
        unfolding 2(2) by (rule set_keys_Map_set)
      with 2(1) show ?thesis by auto
    qed
  qed
  show ?case
    using Cons.IH [of "fst (handleAgentData rt this w m)"] one
    by (auto simp: putAll_Cons)
qed

lemma takeWhile_replicate_stop:
  "a \<noteq> c \<Longrightarrow> takeWhile (\<lambda>x. x \<noteq> c) (replicate n a @ c # r) = replicate n a"
  by (induction n) simp_all

lemma example_frame_name:
  "frameName example_runtime (example_frame i) = Some (replicate (Suc i) 0x41)"
proof -
  have tw: "takeWhile (\<lambda>x. x \<noteq> 0x3A) (replicate i (0x41 :: jschar) @ [0x3A, 0x31]) = replicate i 0x41"
    by (rule takeWhile_replicate_stop) simp
  show ?thesis
    by (simp add: frameName_def decodeSnapshot_def decodeFrame_def tryDecompressStringMessage_def
        example_runtime_def example_JSON_parse_def js_def example_frame_def Host_Name_def tw)
qed

lemma example_frames_length: "length example_frames = 501"
  by (simp add: example_frames_def)

lemma example_frames_names:
  "map (frameName example_runtime) example_frames = map (\<lambda>i. Some (replicate (Suc i) 0x41)) [0..<501]"
  by (simp add: example_frames_def example_frame_name)

lemma example_frames_distinct: "distinct (map (frameName example_runtime) example_frames)"
proof -
  have "inj_on (\<lambda>i. Some (replicate (Suc i) (0x41 :: jschar))) (set [0..<501])"
  proof (rule inj_onI)
    fix i j :: nat
    assume "Some (replicate (Suc i) (0x41 :: jschar)) = Some (replicate (Suc j) 0x41)"
    then have "length (replicate (Suc i) (0x41 :: jschar)) = length (replicate (Suc j) (0x41 :: jschar))"
      by simp
    then show "i = j" by simp
  qed
  then show ?thesis
    unfolding example_frames_names by (simp add: distinct_map)
qed

lemma example_frames_truthy: "list_all (\<lambda>m. truthy (frameName example_runtime m)) example_frames"
  by (simp add: list_all_iff example_frames_def example_frame_name truthy_def)

lemma example_initial_empty: "monitorData (initial example_runtime 0) = []"
  by (simp add: example_initial)

lemma example_full_keys: "\<not> Map_has (monitorData example_full) (js ''HK1'')"
proof
  assume "Map_has (monitorData example_full) (js ''HK1'')"
  then have "js ''HK1'' \<in> fst ` set (monitorData example_full)"
    by (simp add: Map_has_iff)
  with putAll_keys [of example_runtime "initial example_runtime 0" 1 example_frames]
  obtain m where "m \<in> set example_frames" "frameName example_runtime m = Some (js ''HK1'')"
    by (auto simp: example_full_def example_initial_empty)
  then obtain i where "Some (replicate (Suc i) (0x41 :: jschar)) = Some (js ''HK1'')"
    by (auto simp: example_frames_def example_frame_name)
  then have "hd (replicate (Suc i) (0x41 :: jschar)) = hd (js ''HK1'')"
    by simp
  then show False
    by (simp add: js_def)
qed

lemma example_stored_durable: "durable_inv example_runtime example_stored"
  by (simp add: durable_inv_def example_stored_eq storage_list_def)

lemma example_full_size: "Map_size (monitorData example_full) = MONITOR_DATA_MAX_ENTRIES"
proof -
  have "length (monitorData example_full)
        = min (length (monitorData (initial example_runtime 0)) + length example_frames) 500"
    unfolding example_full_def
    by (rule putAll_size [OF _ example_frames_distinct example_frames_truthy])
      (simp_all add: example_initial_empty)
  then show ?thesis
    by (simp add: Map_size_def MONITOR_DATA_MAX_ENTRIES_def example_initial_empty
        example_frames_length)
qed

lemma example_stored_has: "Map_has (monitorData example_stored) (js ''HK1'')"
  by (simp add: example_stored_eq Map_has_def)

lemma example_name_HK1:
  "Host_Name \<lparr>Host = Some \<lparr>Name = Some (js ''HK1''), info = ()\<rparr>, State = (), TimeStamp = t\<rparr>
   = Some (js ''HK1'') \<and> js ''HK1'' \<noteq> []"
  by (simp add: Host_Name_def js_def)

text \<open>
  Claim C1. The monitor store never holds more than \<open>MONITOR_DATA_MAX_ENTRIES\<close> (500)
  entries, and the parsed \<^verbatim>\<open>Host.Name\<close> of every stored value is its key, under every
  operation: \<open>store_inv\<close> holds of a fresh object, and together with \<open>durable_inv\<close>
  (which a restart after an eviction needs, since the store is then reloaded from the
  durable storage) it is preserved by every step, so it holds after every sequence of
  events. A frame that decodes to a snapshot with a non-empty name is rejected when the
  name is not a key and the store holds 500 entries: the object is returned as it was
  and nothing is sent. When the name is a key, the entry is replaced, whatever the
  size. A fresh store that is sent 501 frames with distinct non-empty names holds
  exactly 500 entries afterwards.
\<close>

theorem C1_store_bounded:
  "store_inv rt (initial rt nowMs) \<and> durable_inv rt (initial rt nowMs)
   \<and> (store_inv rt this \<and> durable_inv rt this
        \<longrightarrow> store_inv rt (fst (step rt env nowMs this ev))
            \<and> durable_inv rt (fst (step rt env nowMs this ev)))
   \<and> store_inv rt (run rt env (initial rt nowMs) evs)
   \<and> (store_inv rt this
        \<longrightarrow> Map_size (monitorData this) \<le> MONITOR_DATA_MAX_ENTRIES
            \<and> (\<forall>k v. Map_get (monitorData this) k = Some v
                   \<longrightarrow> (\<exists>data. JSON_parse rt v = Inr data \<and> Host_Name data = Some k)))
   \<and> (decodeSnapshot rt message = Some (jsonStr, data) \<and> Host_Name data = Some nm \<and> nm \<noteq> []
        \<longrightarrow> (\<not> Map_has (monitorData this) nm
               \<and> Map_size (monitorData this) = MONITOR_DATA_MAX_ENTRIES
             \<longrightarrow> handleAgentData rt this w message = (this, []))
            \<and> (Map_has (monitorData this) nm
             \<longrightarrow> monitorData (fst (handleAgentData rt this w message))
                   = Map_set (monitorData this) nm jsonStr
                 \<and> Map_get (monitorData (fst (handleAgentData rt this w message))) nm = Some jsonStr
                 \<and> Map_size (monitorData (fst (handleAgentData rt this w message)))
                   = Map_size (monitorData this)))
   \<and> (monitorData this = [] \<and> length messages = MONITOR_DATA_MAX_ENTRIES + 1
          \<and> distinct (map (frameName rt) messages)
          \<and> list_all (\<lambda>m. truthy (frameName rt m)) messages
        \<longrightarrow> Map_size (monitorData (putAll rt this w messages)) = MONITOR_DATA_MAX_ENTRIES)"
proof (intro conjI impI allI)
  show "store_inv rt (initial rt nowMs)" by (rule initial_inv(1))
  show "durable_inv rt (initial rt nowMs)" by (rule initial_inv(2))
next
  assume "store_inv rt this \<and> durable_inv rt this"
  then show "store_inv rt (fst (step rt env nowMs this ev))"
    and "durable_inv rt (fst (step rt env nowMs this ev))"
    by (simp_all add: step_inv)
next
  show "store_inv rt (run rt env (initial rt nowMs) evs)"
    using run_inv [OF initial_inv, of rt env nowMs evs] by simp
next
  assume "store_inv rt this"
  then show "Map_size (monitorData this) \<le> MONITOR_DATA_MAX_ENTRIES"
    by (simp add: store_inv_def)
next
  fix k v
  assume s: "store_inv rt this" and g: "Map_get (monitorData this) k = Some v"
  from g have "(k, v) \<in> set (monitorData this)"
    by (simp add: Map_get_def map_of_SomeD)
  with s show "\<exists>data. JSON_parse rt v = Inr data \<and> Host_Name data = Some k"
    by (simp add: store_inv_alt)
next
  assume d: "decodeSnapshot rt message = Some (jsonStr, data) \<and> Host_Name data = Some nm \<and> nm \<noteq> []"
    and f: "\<not> Map_has (monitorData this) nm \<and> Map_size (monitorData this) = MONITOR_DATA_MAX_ENTRIES"
  then show "handleAgentData rt this w message = (this, [])"
    by (simp add: handleAgentData_decoded)
next
  assume d: "decodeSnapshot rt message = Some (jsonStr, data) \<and> Host_Name data = Some nm \<and> nm \<noteq> []"
    and h: "Map_has (monitorData this) nm"
  then show md: "monitorData (fst (handleAgentData rt this w message))
      = Map_set (monitorData this) nm jsonStr"
    by (simp add: handleAgentData_decoded broadcast_fields)
  show "Map_get (monitorData (fst (handleAgentData rt this w message))) nm = Some jsonStr"
    by (simp add: md Map_get_Map_set)
  from h show "Map_size (monitorData (fst (handleAgentData rt this w message)))
      = Map_size (monitorData this)"
    by (simp add: md Map_size_def length_Map_set Map_has_iff)
next
  assume a: "monitorData this = [] \<and> length messages = MONITOR_DATA_MAX_ENTRIES + 1
      \<and> distinct (map (frameName rt) messages)
      \<and> list_all (\<lambda>m. truthy (frameName rt m)) messages"
  then have "length (monitorData (putAll rt this w messages))
      = min (length (monitorData this) + length messages) 500"
    by (intro putAll_size) simp_all
  with a show "Map_size (monitorData (putAll rt this w messages)) = MONITOR_DATA_MAX_ENTRIES"
    by (simp add: Map_size_def MONITOR_DATA_MAX_ENTRIES_def)
qed

theorem C1_witness:
  "store_inv example_runtime example_stored \<and> durable_inv example_runtime example_stored
   \<and> store_inv example_runtime
        (fst (step example_runtime example_env 2000 example_stored
                (Message 1 (Text (js ''{HK2:200'')))))
   \<and> Map_size (monitorData example_stored) \<le> MONITOR_DATA_MAX_ENTRIES
   \<and> Map_has (monitorData example_stored) (js ''HK1'')
   \<and> monitorData (fst (handleAgentData example_runtime example_stored 1 (Text (js ''{HK1:161''))))
     = Map_set (monitorData example_stored) (js ''HK1'') (js ''{HK1:161'')
   \<and> \<not> Map_has (monitorData example_full) (js ''HK1'')
   \<and> Map_size (monitorData example_full) = MONITOR_DATA_MAX_ENTRIES
   \<and> handleAgentData example_runtime example_full 1 (Text (js ''{HK1:100'')) = (example_full, [])
   \<and> monitorData (initial example_runtime 0) = []
   \<and> length example_frames = MONITOR_DATA_MAX_ENTRIES + 1
   \<and> distinct (map (frameName example_runtime) example_frames)
   \<and> list_all (\<lambda>m. truthy (frameName example_runtime m)) example_frames
   \<and> Map_size (monitorData (putAll example_runtime (initial example_runtime 0) 1 example_frames))
     = MONITOR_DATA_MAX_ENTRIES"
proof -
  have len: "length example_frames = MONITOR_DATA_MAX_ENTRIES + 1"
    by (simp add: example_frames_length MONITOR_DATA_MAX_ENTRIES_def)
  note stored = C1_store_bounded [where rt = example_runtime and this = example_stored
      and env = example_env and nowMs = 2000 and ev = "Message 1 (Text (js ''{HK2:200''))"
      and evs = "[]" and message = "Text (js ''{HK1:161'')" and jsonStr = "js ''{HK1:161''"
      and data = "\<lparr>Host = Some \<lparr>Name = Some (js ''HK1''), info = ()\<rparr>, State = (), TimeStamp = 161\<rparr>"
      and nm = "js ''HK1''" and w = 1 and messages = "[]"]
  note full = C1_store_bounded [where rt = example_runtime and this = example_full
      and env = example_env and nowMs = 0 and ev = "Alarm"
      and evs = "[]" and message = "Text (js ''{HK1:100'')" and jsonStr = "js ''{HK1:100''"
      and data = "\<lparr>Host = Some \<lparr>Name = Some (js ''HK1''), info = ()\<rparr>, State = (), TimeStamp = 100\<rparr>"
      and nm = "js ''HK1''" and w = 1 and messages = "[]"]
  note fresh = C1_store_bounded [where rt = example_runtime and this = "initial example_runtime 0"
      and env = example_env and nowMs = 0 and ev = "Alarm"
      and evs = "[]" and message = "Text (js ''{HK1:100'')" and jsonStr = "js ''{HK1:100''"
      and data = "\<lparr>Host = Some \<lparr>Name = Some (js ''HK1''), info = ()\<rparr>, State = (), TimeStamp = 100\<rparr>"
      and nm = "js ''HK1''" and w = 1 and messages = example_frames]
  have stepped: "store_inv example_runtime
        (fst (step example_runtime example_env 2000 example_stored
                (Message 1 (Text (js ''{HK2:200'')))))"
    using stored [THEN conjunct2, THEN conjunct2, THEN conjunct1, THEN mp,
        OF conjI [OF example_stored_inv example_stored_durable]]
    by (rule conjunct1)
  have bound: "Map_size (monitorData example_stored) \<le> MONITOR_DATA_MAX_ENTRIES"
    using stored [THEN conjunct2, THEN conjunct2, THEN conjunct2, THEN conjunct2, THEN conjunct1,
        THEN mp, OF example_stored_inv]
    by (rule conjunct1)
  have replaced: "monitorData (fst (handleAgentData example_runtime example_stored 1 (Text (js ''{HK1:161''))))
     = Map_set (monitorData example_stored) (js ''HK1'') (js ''{HK1:161'')"
    using stored [THEN conjunct2, THEN conjunct2, THEN conjunct2, THEN conjunct2, THEN conjunct2,
        THEN conjunct1, THEN mp,
        OF conjI [OF example_decode_HK1_161 example_name_HK1],
        THEN conjunct2, THEN mp, OF example_stored_has]
    by (rule conjunct1)
  have rejected: "handleAgentData example_runtime example_full 1 (Text (js ''{HK1:100''))
      = (example_full, [])"
    by (rule full [THEN conjunct2, THEN conjunct2, THEN conjunct2, THEN conjunct2, THEN conjunct2,
        THEN conjunct1, THEN mp,
        OF conjI [OF example_decode_HK1 example_name_HK1],
        THEN conjunct1, THEN mp, OF conjI [OF example_full_keys example_full_size]])
  have all: "Map_size (monitorData (putAll example_runtime (initial example_runtime 0) 1 example_frames))
     = MONITOR_DATA_MAX_ENTRIES"
    by (rule fresh [THEN conjunct2, THEN conjunct2, THEN conjunct2, THEN conjunct2, THEN conjunct2,
        THEN conjunct2, THEN mp,
        OF conjI [OF example_initial_empty
                  conjI [OF len conjI [OF example_frames_distinct example_frames_truthy]]]])
  show ?thesis
    using example_stored_inv example_stored_durable stepped bound example_stored_has replaced
      example_full_keys example_full_size rejected example_initial_empty len
      example_frames_distinct example_frames_truthy all
    by (intro conjI)
qed

section \<open>What the handler does with a decoded frame\<close>










section \<open>A byte order mark before the secret\<close>

lemma example_secret_bytes:
  "TextEncoder_encode (AUTH_SECRET example_env) = [0x73, 0x65, 0x63, 0x72, 0x65, 0x74]"
  by (simp add: example_env_def js_def)

lemma example_bom_decoded:
  "TextDecoder_decode bom_runtime ([0xEF, 0xBB, 0xBF] @ TextEncoder_encode (AUTH_SECRET example_env))
   = AUTH_SECRET example_env"
  by (simp add: bom_runtime_def TextDecoder_ascii_def example_secret_bytes)
    (simp add: example_env_def js_def)

text \<open>
  Claim C4 as it is worded, a comparison byte for byte, fails on a binary first message:
  the bytes \<open>EF BB BF\<close> followed by the secret are not the bytes of the secret, and the
  connection is authenticated all the same, because the decoder drops the mark before
  the texts are compared.
\<close>

theorem C4_byte_order_mark:
  "[0xEF, 0xBB, 0xBF] @ TextEncoder_encode (AUTH_SECRET example_env)
     \<noteq> TextEncoder_encode (AUTH_SECRET example_env)
   \<and> agent \<in> set (getTags example_connected 1)
   \<and> deserializeAttachment example_connected 1 = Some \<lparr>authed = False\<rparr>
   \<and> snd (webSocketMessage bom_runtime example_env 0 example_connected 1
             (Binary ([0xEF, 0xBB, 0xBF] @ TextEncoder_encode (AUTH_SECRET example_env))))
       = [Send 1 (js ''auth success'')]
   \<and> deserializeAttachment
         (fst (webSocketMessage bom_runtime example_env 0 example_connected 1
                 (Binary ([0xEF, 0xBB, 0xBF] @ TextEncoder_encode (AUTH_SECRET example_env))))) 1
       = Some \<lparr>authed = True\<rparr>"
proof -
  have differ: "[0xEF, 0xBB, 0xBF] @ TextEncoder_encode (AUTH_SECRET example_env)
     \<noteq> TextEncoder_encode (AUTH_SECRET example_env)"
    by (simp add: example_secret_bytes)
  have res: "webSocketMessage bom_runtime example_env 0 example_connected 1
             (Binary ([0xEF, 0xBB, 0xBF] @ TextEncoder_encode (AUTH_SECRET example_env)))
      = (ensureAlarm 0 (serializeAttachment example_connected 1 \<lparr>authed = True\<rparr>),
         [Send 1 (js ''auth success'')])"
    using example_connected_socket example_bom_decoded
    by (simp add: webSocketMessage_def)
  have att: "deserializeAttachment
      (ensureAlarm 0 (serializeAttachment example_connected 1 \<lparr>authed = True\<rparr>)) 1
      = Some \<lparr>authed = True\<rparr>"
    by (simp add: example_connected_eq ensureAlarm_def serializeAttachment_def
        deserializeAttachment_def Map_get_def)
  have sent: "snd (webSocketMessage bom_runtime example_env 0 example_connected 1
             (Binary ([0xEF, 0xBB, 0xBF] @ TextEncoder_encode (AUTH_SECRET example_env))))
       = [Send 1 (js ''auth success'')]"
    unfolding res by simp
  have flag: "deserializeAttachment
         (fst (webSocketMessage bom_runtime example_env 0 example_connected 1
                 (Binary ([0xEF, 0xBB, 0xBF] @ TextEncoder_encode (AUTH_SECRET example_env))))) 1
       = Some \<lparr>authed = True\<rparr>"
    unfolding res using att by simp
  show ?thesis
    using differ example_connected_socket sent flag by (intro conjI)
qed

section \<open>The sweep after an eviction\<close>

lemma example_alarm1:
  "step example_runtime example_env 161000 example_stored Alarm
   = (\<lparr>monitorData = [(js ''HK1'', js ''{HK1:100'')], offlineMap = [(js ''HK1'', True)],
       initialized = True, cachedViewerPayload = None,
       webSockets = [(1, \<lparr>tags = [agent], attachment = Some \<lparr>authed = True\<rparr>\<rparr>)],
       storage = [(js ''monitor:HK1'', js ''{HK1:100'')], alarmTime = Some 181000\<rparr>,
      [Telegram (js ''token'') (js ''42'') (offlineMessage (js ''HK1''))])"
proof -
  have g: "getAllMonitorData example_runtime (example_stored\<lparr>alarmTime := None\<rparr>)
      = getAllMonitorData example_runtime example_stored"
    by (simp add: getAllMonitorData_def getAllMonitorData_entries_def)
  have e: "ENABLE_TG example_env = js ''true''" "TG_CHAT_ID example_env = js ''42''"
    "TG_TOKEN example_env = js ''token''"
    by (simp_all add: example_env_def)
  have o: "offlineMap (example_stored\<lparr>alarmTime := None\<rparr>) = []"
    by (simp add: example_stored_eq)
  show ?thesis
    using example_token
    by (simp add: step_def alarm_def g e o example_sweep1 [simplified] Let_def)
      (simp add: example_stored_eq persistMonitorSnapshot_def storage_put_all_def monitorKey_def
        ALARM_INTERVAL_MS_def Map_size_def js_def)
qed


lemma example_swept_eq:
  "example_swept =
     \<lparr>monitorData = [(js ''HK1'', js ''{HK1:100'')], offlineMap = [(js ''HK1'', True)],
      initialized = True, cachedViewerPayload = None,
      webSockets = [(1, \<lparr>tags = [agent], attachment = Some \<lparr>authed = True\<rparr>\<rparr>)],
      storage = [(js ''monitor:HK1'', js ''{HK1:100'')], alarmTime = Some 181000\<rparr>"
  by (simp add: example_swept_def example_alarm1)

lemma example_woken_eq:
  "example_woken =
     \<lparr>monitorData = [(js ''HK1'', js ''{HK1:100'')], offlineMap = [],
      initialized = True, cachedViewerPayload = None,
      webSockets = [(1, \<lparr>tags = [agent], attachment = Some \<lparr>authed = True\<rparr>\<rparr>)],
      storage = [(js ''monitor:HK1'', js ''{HK1:100'')], alarmTime = Some 181000\<rparr>"
proof -
  have l: "storage_list [(js ''monitor:HK1'', js ''{HK1:100'')] (js ''monitor:'')
      = [(js ''monitor:HK1'', js ''{HK1:100'')]"
    by (simp add: storage_list_def js_def)
  have r: "restoredName example_runtime 171 (js ''{HK1:100'') = Some (js ''HK1'')"
    by (simp add: restoredName_def example_parse_HK1 Host_Name_def SNAPSHOT_MAX_AGE_SEC_def)
      (simp add: js_def)
  show ?thesis
    by (simp add: example_woken_def step_def example_swept_eq MonitorDO_new_eq l r loadEntry_def
        storage_delete_all_def)
qed

lemma example_sweep_again:
  "checkOfflineStatus example_runtime
     [\<lparr>Host = Some \<lparr>Name = Some (js ''HK1''), info = ()\<rparr>, State = (), TimeStamp = 100\<rparr>]
     offline (js ''token'') (js ''42'') OFFLINE_THRESHOLD_SEC 181
   = (if Map_get offline (js ''HK1'') = Some True then (offline, [])
      else (Map_set offline (js ''HK1'') True,
            [Telegram (js ''token'') (js ''42'') (offlineMessage (js ''HK1''))]))"
  using example_token
  by (simp add: checkOfflineStatus_def Host_Name_def OFFLINE_THRESHOLD_SEC_def sendTGMessage_eq)
    (simp add: js_def)

lemma example_alarm2:
  assumes "monitorData this = [(js ''HK1'', js ''{HK1:100'')]"
  shows "snd (step example_runtime example_env 181000 this Alarm)
         = snd (checkOfflineStatus example_runtime
                 [\<lparr>Host = Some \<lparr>Name = Some (js ''HK1''), info = ()\<rparr>, State = (), TimeStamp = 100\<rparr>]
                 (offlineMap this) (js ''token'') (js ''42'') OFFLINE_THRESHOLD_SEC 181)"
proof -
  have g: "getAllMonitorData example_runtime (this\<lparr>alarmTime := None\<rparr>)
      = [\<lparr>Host = Some \<lparr>Name = Some (js ''HK1''), info = ()\<rparr>, State = (), TimeStamp = 100\<rparr>]"
    by (simp add: getAllMonitorData_def getAllMonitorData_entries_def assms List.map_filter_def
        example_parse_HK1 Array_sort_def)
  have e: "ENABLE_TG example_env = js ''true''" "TG_CHAT_ID example_env = js ''42''"
    "TG_TOKEN example_env = js ''token''"
    by (simp_all add: example_env_def)
  have "snd (alarm example_runtime example_env 181000 (this\<lparr>alarmTime := None\<rparr>))
      = snd (checkOfflineStatus example_runtime
               (getAllMonitorData example_runtime (this\<lparr>alarmTime := None\<rparr>))
               (offlineMap (this\<lparr>alarmTime := None\<rparr>)) (TG_TOKEN example_env)
               (TG_CHAT_ID example_env) OFFLINE_THRESHOLD_SEC (181000 div 1000))"
    using example_token by (intro alarm_sweep(2)) (simp_all add: e)
  then show ?thesis
    by (simp add: step_def g e)
qed

text \<open>
  Claim C5, on the object as it runs. The offline flags are kept in memory only and the
  constructor starts with none, while the snapshots are persisted and restored. The
  snapshot of \<open>HK1\<close> (TimeStamp 100) is stale at second 161 and at second 181. The
  alarm at second 161 sends one offline notification. When the object stays in memory,
  the alarm at second 181 sends nothing. When the object is evicted and built again in
  between, the store is the same and the snapshot has not changed its state, and the
  alarm at second 181 sends the offline notification a second time.
\<close>

theorem C5_repeat_after_eviction:
  "snd (step example_runtime example_env 161000 example_stored Alarm)
     = [Telegram (js ''token'') (js ''42'') (offlineMessage (js ''HK1''))]
   \<and> snd (step example_runtime example_env 181000 example_swept Alarm) = []
   \<and> monitorData example_woken = monitorData example_stored
   \<and> getAllMonitorData example_runtime example_woken
       = getAllMonitorData example_runtime example_stored
   \<and> snd (step example_runtime example_env 181000 example_woken Alarm)
     = [Telegram (js ''token'') (js ''42'') (offlineMessage (js ''HK1''))]"
proof -
  have first: "snd (step example_runtime example_env 161000 example_stored Alarm)
     = [Telegram (js ''token'') (js ''42'') (offlineMessage (js ''HK1''))]"
    by (simp add: example_alarm1)
  have quiet: "snd (step example_runtime example_env 181000 example_swept Alarm) = []"
    by (simp add: example_alarm2 example_swept_eq example_sweep_again Map_get_def)
  have same: "monitorData example_woken = monitorData example_stored"
    by (simp add: example_woken_eq example_stored_eq)
  have all: "getAllMonitorData example_runtime example_woken
       = getAllMonitorData example_runtime example_stored"
    by (simp add: getAllMonitorData_def getAllMonitorData_entries_def same)
  have again: "snd (step example_runtime example_env 181000 example_woken Alarm)
     = [Telegram (js ''token'') (js ''42'') (offlineMessage (js ''HK1''))]"
    by (simp add: example_alarm2 example_woken_eq example_sweep_again Map_get_def)
  show ?thesis
    using first quiet same all again by (intro conjI)
qed

section \<open>The order of the returned snapshots\<close>

lemma order3_simps:
  "order3 x x = 0" "(order3 x y = 0) = (x = y)"
  "(order3 x y = - 1) = (x < y)" "(order3 x y = 1) = (y < x)"
  by (auto simp: order3_def)

lemma order3_flip: "order3 y x = - order3 x y"
  by (auto simp: order3_def)

lemma lexCompare_flip:
  assumes "\<And>x y. c y x = - c x y"
  shows "lexCompare c ys xs = - lexCompare c xs ys"
proof (induction xs arbitrary: ys)
  case Nil
  show ?case by (cases ys) simp_all
next
  case (Cons x xs)
  show ?case
  proof (cases ys)
    case Nil
    then show ?thesis by simp
  next
    case ys: (Cons y ys')
    show ?thesis
      using Cons [of ys'] assms [of x y] by (simp add: ys)
  qed
qed

lemma lexCompare_range:
  assumes "\<And>x y. c x y \<in> {- 1, 0, 1}"
  shows "lexCompare c xs ys \<in> {- 1, 0, 1}"
proof (induction xs arbitrary: ys)
  case Nil
  show ?case by (cases ys) simp_all
next
  case (Cons x xs)
  show ?case
  proof (cases ys)
    case Nil
    then show ?thesis by simp
  next
    case ys: (Cons y ys')
    show ?thesis
      using Cons [of ys'] assms [of x y] by (auto simp: ys)
  qed
qed

lemma lexCompare_zero:
  assumes "\<And>x y. c x y = 0 \<longleftrightarrow> x = y"
  shows "lexCompare c xs ys = 0 \<longleftrightarrow> xs = ys"
proof (induction xs arbitrary: ys)
  case Nil
  show ?case by (cases ys) simp_all
next
  case (Cons x xs)
  show ?case
  proof (cases ys)
    case Nil
    then show ?thesis by simp
  next
    case ys: (Cons y ys')
    show ?thesis
      using Cons [of ys'] assms [of x y] by (auto simp: ys)
  qed
qed

lemma order3_range: "order3 x y \<in> {- 1, 0, 1}"
  by (simp add: order3_def)

lemma compareLetters_lex:
  "lexCompare order3 l1 l2
   = (case compareLetters l1 l2 of
        Some r \<Rightarrow> r
      | None \<Rightarrow> if length l1 < length l2 then - 1 else if length l1 > length l2 then 1 else 0)"
proof (induction l1 arbitrary: l2)
  case Nil
  show ?case by (cases l2) simp_all
next
  case (Cons x xs)
  show ?case
  proof (cases l2)
    case Nil
    then show ?thesis by simp
  next
    case l2: (Cons y ys)
    show ?thesis
      using Cons [of ys] by (auto simp: l2 order3_def)
  qed
qed

lemma stringLess_lex: "stringLess sa sb \<longleftrightarrow> lexCompare order3 sa sb = - 1"
  by (induction sa sb rule: stringLess.induct) (auto simp: order3_def)

lemma stringLess_lex': "stringLess sb sa \<longleftrightarrow> lexCompare order3 sa sb = 1"
proof -
  have "lexCompare order3 sb sa = - lexCompare order3 sa sb"
    by (rule lexCompare_flip) (rule order3_flip)
  then show ?thesis
    by (simp add: stringLess_lex)
qed

lemma string_range: "lexCompare order3 sa sb \<in> {- 1, 0, 1}"
  by (rule lexCompare_range) (rule order3_range)

lemma compareTokens_lex:
  "lexCompare tokenOrder ta tb
   = (case compareTokens ta tb of
        Some r \<Rightarrow> r
      | None \<Rightarrow> sgn (int (length ta) - int (length tb)))"
proof (induction ta arbitrary: tb)
  case Nil
  show ?case by (cases tb) simp_all
next
  case (Cons x xs)
  show ?case
  proof (cases tb)
    case Nil
    then show ?thesis by simp
  next
    case tb: (Cons y ys)
    note tails = Cons [of ys]
    show ?thesis
    proof (cases x)
      case (Num n)
      then show ?thesis using tails by (cases y) (auto simp: tb order3_def split: option.splits)
    next
      case (Str sa)
      show ?thesis
      proof (cases y)
        case (Num m)
        then show ?thesis using Str by (simp add: tb)
      next
        case y: (Str sb)
        have f: "lexCompare order3 sb sa = - lexCompare order3 sa sb"
          by (rule lexCompare_flip) (rule order3_flip)
        show ?thesis
          using tails string_range [of sa sb]
          by (auto simp: tb Str y stringLess_lex f split: option.splits)
      qed
    qed
  qed
qed

lemma naturalCompare_lex: "sgn (naturalCompare a b) = lexCompare tokenOrder (tokenize a) (tokenize b)"
proof -
  have r: "lexCompare tokenOrder ta tb \<in> {- 1, 0, 1}" for ta tb
  proof (rule lexCompare_range)
    fix x y show "tokenOrder x y \<in> {- 1, 0, 1}"
      using order3_range string_range by (cases x; cases y) auto
  qed
  show ?thesis
    using r [of "tokenize a" "tokenize b"]
    by (auto simp: naturalCompare_def Let_def compareTokens_lex split: option.splits)
qed

lemma compareLetters_nonzero: "compareLetters l1 l2 = Some r \<Longrightarrow> r = - 1 \<or> r = 1"
  by (induction l1 l2 rule: compareLetters.induct) (auto split: if_splits)

lemma compareStrings_nameOrder: "sgn (compareStrings a b) = nameOrder a b"
proof (cases "matchLettersDigits (removeWhitespace a)")
  case None
  then show ?thesis
    by (simp add: compareStrings_def nameOrder_def Let_def naturalCompare_lex)
next
  case a: (Some pa)
  show ?thesis
  proof (cases "matchLettersDigits (removeWhitespace b)")
    case None
    then show ?thesis
      by (simp add: compareStrings_def nameOrder_def Let_def naturalCompare_lex a
          split: prod.splits)
  next
    case b: (Some pb)
    obtain l1 d1 where pa: "pa = (l1, d1)" by (cases pa)
    obtain l2 d2 where pb: "pb = (l2, d2)" by (cases pb)
    have r: "lexCompare order3 l1 l2 \<in> {- 1, 0, 1}"
      by (rule string_range)
    show ?thesis
    proof (cases "compareLetters l1 l2")
      case None
      then show ?thesis
        by (auto simp: compareStrings_def nameOrder_def Let_def a b pa pb compareLetters_lex
            suffixValue_def order3_def)
    next
      case (Some r)
      with compareLetters_nonzero [OF Some] show ?thesis
        by (auto simp: compareStrings_def nameOrder_def Let_def a b pa pb compareLetters_lex)
    qed
  qed
qed

lemma digit_not_letter: "isDigit c \<Longrightarrow> \<not> isLetter c"
proof
  assume d: "isDigit c" and l: "isLetter c"
  from d have le: "c \<le> 0x39" by (simp add: isDigit_def)
  from l consider "0x41 \<le> c" | "0x61 \<le> c" by (auto simp: isLetter_def)
  then show False
  proof cases
    case 1
    from this le have "(0x41 :: jschar) \<le> 0x39" by (rule order_trans)
    then show False by simp
  next
    case 2
    from this le have "(0x61 :: jschar) \<le> 0x39" by (rule order_trans)
    then show False by simp
  qed
qed

lemma takeWhile_all: "list_all P xs \<Longrightarrow> (ys = [] \<or> \<not> P (hd ys)) \<Longrightarrow> takeWhile P (xs @ ys) = xs"
  by (induction xs) (auto simp: takeWhile_eq_Nil_iff intro: list.exhaust_sel)

lemma dropWhile_all: "list_all P xs \<Longrightarrow> (ys = [] \<or> \<not> P (hd ys)) \<Longrightarrow> dropWhile P (xs @ ys) = ys"
  by (induction xs) (auto simp: dropWhile_eq_self_iff)

lemma matchLettersDigits_iff:
  "matchLettersDigits s = Some (l, d)
   \<longleftrightarrow> s = l @ d \<and> l \<noteq> [] \<and> list_all isLetter l \<and> list_all isDigit d"
proof
  assume "matchLettersDigits s = Some (l, d)"
  then have l: "l = takeWhile isLetter s" and d: "d = dropWhile isLetter s"
    and ne: "l \<noteq> []" and dd: "list_all isDigit d"
    by (auto simp: matchLettersDigits_def Let_def split: if_splits)
  have "list_all isLetter l"
    unfolding l list_all_iff by (auto dest: set_takeWhileD)
  with l d ne dd show "s = l @ d \<and> l \<noteq> [] \<and> list_all isLetter l \<and> list_all isDigit d"
    by simp
next
  assume a: "s = l @ d \<and> l \<noteq> [] \<and> list_all isLetter l \<and> list_all isDigit d"
  then have stop: "d = [] \<or> \<not> isLetter (hd d)"
    by (cases d) (auto simp: digit_not_letter)
  from a have "takeWhile isLetter s = l" "dropWhile isLetter s = d"
    using takeWhile_all [of isLetter l d] dropWhile_all [of isLetter l d] stop by simp_all
  with a show "matchLettersDigits s = Some (l, d)"
    by (simp add: matchLettersDigits_def Let_def)
qed

lemma tokenize_Nil_iff: "tokenize s = [] \<longleftrightarrow> s = []"
  by (cases s) simp_all

lemma tokenize_digits:
  assumes "ds \<noteq> []" "list_all isDigit ds" "r = [] \<or> \<not> isDigit (hd r)"
  shows "tokenize (ds @ r) = Num (parseInt ds) # tokenize r"
proof -
  from assms(1) obtain c cs where ds: "ds = c # cs" by (cases ds) auto
  with assms(2) have c: "isDigit c" and cs: "list_all isDigit cs" by simp_all
  have "takeWhile isDigit (cs @ r) = cs" "dropWhile isDigit (cs @ r) = r"
    using takeWhile_all [OF cs assms(3)] dropWhile_all [OF cs assms(3)] by simp_all
  then show ?thesis
    using c by (simp add: ds)
qed

lemma tokenize_nondigits:
  assumes "l \<noteq> []" "list_all (\<lambda>c. \<not> isDigit c) l" "r = [] \<or> isDigit (hd r)"
  shows "tokenize (l @ r) = Str l # tokenize r"
proof -
  from assms(1) obtain c cs where l: "l = c # cs" by (cases l) auto
  with assms(2) have c: "\<not> isDigit c" and cs: "list_all (\<lambda>c. \<not> isDigit c) cs" by simp_all
  have stop: "r = [] \<or> \<not> \<not> isDigit (hd r)"
    using assms(3) by simp
  have "takeWhile (\<lambda>c. \<not> isDigit c) (cs @ r) = cs" "dropWhile (\<lambda>c. \<not> isDigit c) (cs @ r) = r"
    using takeWhile_all [OF cs stop] dropWhile_all [OF cs stop] by simp_all
  then show ?thesis
    using c by (simp add: l)
qed

lemma tokenize_shaped:
  assumes "matchLettersDigits s = Some (l, d)"
  shows "tokenize s = Str l # (if d = [] then [] else [Num (parseInt d)])"
proof -
  from assms have s: "s = l @ d" and l: "l \<noteq> []" "list_all isLetter l" and d: "list_all isDigit d"
    by (simp_all add: matchLettersDigits_iff)
  have nd: "list_all (\<lambda>c. \<not> isDigit c) l"
    using l(2) by (auto simp: list_all_iff dest: digit_not_letter)
  have stop: "d = [] \<or> isDigit (hd d)"
    using d by (cases d) simp_all
  have "tokenize d = (if d = [] then [] else [Num (parseInt d)])"
    using tokenize_digits [of d "[]"] d by simp
  then show ?thesis
    unfolding s using tokenize_nondigits [OF l(1) nd stop] by simp
qed

lemma tokenize_Str:
  assumes "tokenize s = Str l # rest"
  shows "\<exists>s'. s = l @ s' \<and> tokenize s' = rest"
proof (cases s)
  case Nil
  with assms show ?thesis by simp
next
  case (Cons c cs)
  with assms have "l = c # takeWhile (\<lambda>d. \<not> isDigit d) cs"
    and "tokenize (dropWhile (\<lambda>d. \<not> isDigit d) cs) = rest"
    by (auto split: if_splits)
  then show ?thesis
    by (intro exI [of _ "dropWhile (\<lambda>d. \<not> isDigit d) cs"]) (simp add: Cons)
qed

lemma tokenize_Num:
  assumes "tokenize s = Num n # rest"
  shows "\<exists>ds s'. s = ds @ s' \<and> list_all isDigit ds \<and> tokenize s' = rest"
proof (cases s)
  case Nil
  with assms show ?thesis by simp
next
  case (Cons c cs)
  with assms have c: "isDigit c"
    and r: "tokenize (dropWhile isDigit cs) = rest"
    by (auto split: if_splits)
  have "list_all isDigit (c # takeWhile isDigit cs)"
    using c by (auto simp: list_all_iff dest: set_takeWhileD)
  then show ?thesis
    using r
    by (intro exI [of _ "c # takeWhile isDigit cs"] exI [of _ "dropWhile isDigit cs"])
      (simp add: Cons)
qed

lemma shaped_of_tokens:
  assumes "l \<noteq> []" "list_all isLetter l"
    and "tokenize s = [Str l] \<or> tokenize s = [Str l, Num n]"
  shows "matchLettersDigits s \<noteq> None"
proof -
  from assms(3) obtain d where "s = l @ d" "list_all isDigit d"
  proof
    assume "tokenize s = [Str l]"
    from tokenize_Str [OF this] have "s = l @ []"
      by (auto simp: tokenize_Nil_iff)
    then show ?thesis using that [of "[]"] by simp
  next
    assume "tokenize s = [Str l, Num n]"
    from tokenize_Str [OF this] obtain s' where s': "s = l @ s'" "tokenize s' = [Num n]"
      by blast
    from tokenize_Num [OF s'(2)] obtain ds where "s' = ds @ []" "list_all isDigit ds"
      by (auto simp: tokenize_Nil_iff)
    then show ?thesis using that [of ds] s'(1) by simp
  qed
  then have "matchLettersDigits s = Some (l, d)"
    using assms(1,2) by (simp add: matchLettersDigits_iff)
  then show ?thesis by simp
qed

lemma lexCompare_le_Cons:
  assumes "\<And>x y. c x y \<in> {- 1, 0, 1}"
  shows "lexCompare c (x # xs) (y # ys) \<le> 0
         \<longleftrightarrow> c x y = - 1 \<or> (c x y = 0 \<and> lexCompare c xs ys \<le> 0)"
  using assms [of x y] by auto

lemma lexCompare_trans:
  assumes range: "\<And>x y. c x y \<in> {- 1, 0, 1}"
    and flip: "\<And>x y. c y x = - c x y"
    and zero: "\<And>x y. c x y = 0 \<longleftrightarrow> x = y"
    and trans: "\<And>x y z. c x y \<le> 0 \<Longrightarrow> c y z \<le> 0 \<Longrightarrow> c x z \<le> 0"
  shows "lexCompare c xs ys \<le> 0 \<Longrightarrow> lexCompare c ys zs \<le> 0 \<Longrightarrow> lexCompare c xs zs \<le> 0"
proof (induction xs arbitrary: ys zs)
  case Nil
  then show ?case by (cases zs) simp_all
next
  case (Cons x xs)
  from Cons.prems(1) obtain y ys' where ys: "ys = y # ys'"
    by (cases ys) auto
  from Cons.prems(2) obtain z zs' where zs: "zs = z # zs'"
    unfolding ys by (cases zs) auto
  from Cons.prems(1) have xy: "c x y = - 1 \<or> (c x y = 0 \<and> lexCompare c xs ys' \<le> 0)"
    unfolding ys by (simp only: lexCompare_le_Cons [OF range])
  from Cons.prems(2) have yz: "c y z = - 1 \<or> (c y z = 0 \<and> lexCompare c ys' zs' \<le> 0)"
    unfolding ys zs by (simp only: lexCompare_le_Cons [OF range])
  have "c x z = - 1 \<or> (c x z = 0 \<and> lexCompare c xs zs' \<le> 0)"
  proof (cases "c x y = 0")
    case True
    then have "x = y" by (simp add: zero)
    show ?thesis
    proof (cases "c y z = 0")
      case True
      then have "y = z" by (simp add: zero)
      have "lexCompare c xs zs' \<le> 0"
        using Cons.IH [of ys' zs'] xy yz \<open>c x y = 0\<close> \<open>c y z = 0\<close> by simp
      moreover have "c x z = 0"
        using \<open>x = y\<close> \<open>y = z\<close> by (simp add: zero)
      ultimately show ?thesis by simp
    next
      case False
      with yz have "c y z = - 1" by simp
      with \<open>x = y\<close> show ?thesis by simp
    qed
  next
    case False
    with xy have lt: "c x y = - 1" by simp
    show ?thesis
    proof (cases "c y z = 0")
      case True
      then have "y = z" by (simp add: zero)
      with lt show ?thesis by simp
    next
      case False
      with yz have lt2: "c y z = - 1" by simp
      have le: "c x z \<le> 0"
        by (rule trans [of x y z]) (simp_all add: lt lt2)
      have "c x z \<noteq> 0"
      proof
        assume "c x z = 0"
        then have "x = z" by (simp add: zero)
        with lt2 have "c y x = - 1" by simp
        with flip [of x y] lt show False by simp
      qed
      with le range [of x z] show ?thesis by auto
    qed
  qed
  then show ?case
    unfolding zs by (simp only: lexCompare_le_Cons [OF range])
qed

lemma order3_zero: "order3 x y = 0 \<longleftrightarrow> x = y"
  by (auto simp: order3_def)

lemma order3_le: "order3 x y \<le> 0 \<longleftrightarrow> x \<le> y"
  by (auto simp: order3_def)

lemma string_flip: "lexCompare order3 sb sa = - lexCompare order3 sa sb"
  by (rule lexCompare_flip) (rule order3_flip)

lemma string_zero: "lexCompare order3 sa sb = 0 \<longleftrightarrow> sa = sb"
  by (rule lexCompare_zero) (rule order3_zero)

lemma string_trans:
  "lexCompare order3 sa sb \<le> 0 \<Longrightarrow> lexCompare order3 sb sc \<le> 0 \<Longrightarrow> lexCompare order3 sa sc \<le> 0"
proof (rule lexCompare_trans [of order3])
  show "order3 x y \<in> {- 1, 0, 1}" for x y :: "'a" by (rule order3_range)
  show "order3 y x = - order3 x y" for x y :: "'a" by (rule order3_flip)
  show "order3 x y = 0 \<longleftrightarrow> x = y" for x y :: "'a" by (rule order3_zero)
  show "order3 x y \<le> 0 \<Longrightarrow> order3 y z \<le> 0 \<Longrightarrow> order3 x z \<le> 0" for x y z :: "'a"
    by (simp add: order3_le)
qed

lemma tokenOrder_range: "tokenOrder x y \<in> {- 1, 0, 1}"
  using order3_range string_range by (cases x; cases y) auto

lemma tokenOrder_flip: "tokenOrder y x = - tokenOrder x y"
proof (cases x)
  case x: (Num a)
  show ?thesis
  proof (cases y)
    case (Num b)
    show ?thesis unfolding x Num tokenOrder.simps by (rule order3_flip)
  next
    case (Str sb)
    show ?thesis unfolding x Str by simp
  qed
next
  case x: (Str sa)
  show ?thesis
  proof (cases y)
    case (Num b)
    show ?thesis unfolding x Num by simp
  next
    case (Str sb)
    show ?thesis unfolding x Str tokenOrder.simps by (rule string_flip)
  qed
qed

lemma tokenOrder_zero: "tokenOrder x y = 0 \<longleftrightarrow> x = y"
  by (cases x; cases y) (simp_all add: order3_zero string_zero)

lemma tokenOrder_trans:
  "tokenOrder x y \<le> 0 \<Longrightarrow> tokenOrder y z \<le> 0 \<Longrightarrow> tokenOrder x z \<le> 0"
  by (cases x; cases y; cases z) (auto simp: order3_le intro: string_trans)

lemma tokens_range: "lexCompare tokenOrder ta tb \<in> {- 1, 0, 1}"
  by (rule lexCompare_range) (rule tokenOrder_range)

lemma tokens_flip: "lexCompare tokenOrder tb ta = - lexCompare tokenOrder ta tb"
  by (rule lexCompare_flip) (rule tokenOrder_flip)

lemma tokens_zero: "lexCompare tokenOrder ta tb = 0 \<longleftrightarrow> ta = tb"
  by (rule lexCompare_zero) (rule tokenOrder_zero)

lemma tokens_trans:
  "lexCompare tokenOrder ta tb \<le> 0 \<Longrightarrow> lexCompare tokenOrder tb tc \<le> 0
   \<Longrightarrow> lexCompare tokenOrder ta tc \<le> 0"
  by (rule lexCompare_trans [of tokenOrder, OF tokenOrder_range tokenOrder_flip tokenOrder_zero
        tokenOrder_trans])

lemma key_of_unshaped:
  assumes a: "matchLettersDigits s1 = Some (l, d)" and b: "matchLettersDigits s2 = None"
  shows "lexCompare tokenOrder (tokenize s1) (tokenize s2)
         = lexCompare tokenOrder [Str l, Num (suffixValue d)] (tokenize s2)"
proof (cases "d = []")
  case False
  then show ?thesis
    by (simp add: tokenize_shaped [OF a] suffixValue_def)
next
  case True
  from a have l: "l \<noteq> []" "list_all isLetter l"
    by (simp_all add: matchLettersDigits_iff)
  have t1: "tokenize s1 = [Str l]"
    using True by (simp add: tokenize_shaped [OF a])
  have key: "[Str l, Num (suffixValue d)] = [Str l, Num 0]"
    using True by (simp add: suffixValue_def)
  have not1: "tokenize s2 \<noteq> [Str l]" and not2: "tokenize s2 \<noteq> [Str l, Num n]" for n
    using shaped_of_tokens [OF l, of s2 n] b by auto
  show ?thesis
  proof (cases "tokenize s2")
    case Nil
    then show ?thesis by (simp add: t1 key)
  next
    case (Cons t ts)
    show ?thesis
    proof (cases "tokenOrder (Str l) t = 0")
      case False
      then show ?thesis by (simp add: t1 key Cons)
    next
      case zero: True
      then have t: "t = Str l" by (simp add: tokenOrder_zero)
      show ?thesis
      proof (cases ts)
        case Nil
        with not1 Cons t show ?thesis by simp
      next
        case ts: (Cons u us)
        show ?thesis
        proof (cases u)
          case (Str x)
          then show ?thesis by (simp add: t1 key Cons ts t string_zero)
        next
          case (Num n)
          show ?thesis
          proof (cases "n = 0")
            case False
            then have "order3 0 n = - 1" by (simp add: order3_def zero_less_iff_neq_zero)
            then show ?thesis by (simp add: t1 key Cons ts t Num string_zero)
          next
            case True
            have "us \<noteq> []"
              using not2 [of 0] Cons ts t Num True by simp
            then obtain v vs where "us = v # vs" by (cases us) auto
            then show ?thesis
              by (simp add: t1 key Cons ts t Num True string_zero order3_def)
          qed
        qed
      qed
    qed
  qed
qed

lemma nameOrder_sortKey: "nameOrder a b = lexCompare tokenOrder (sortKey a) (sortKey b)"
proof (cases "matchLettersDigits (removeWhitespace a)")
  case a: None
  show ?thesis
  proof (cases "matchLettersDigits (removeWhitespace b)")
    case None
    with a show ?thesis by (simp add: nameOrder_def sortKey_def)
  next
    case (Some pb)
    obtain l d where pb: "pb = (l, d)" by (cases pb)
    have "lexCompare tokenOrder (tokenize (removeWhitespace b)) (tokenize (removeWhitespace a))
        = lexCompare tokenOrder [Str l, Num (suffixValue d)] (tokenize (removeWhitespace a))"
      by (rule key_of_unshaped) (simp_all add: Some pb a)
    then have "lexCompare tokenOrder (tokenize (removeWhitespace a)) (tokenize (removeWhitespace b))
        = lexCompare tokenOrder (tokenize (removeWhitespace a)) [Str l, Num (suffixValue d)]"
      using tokens_flip [of "tokenize (removeWhitespace a)" "tokenize (removeWhitespace b)"]
        tokens_flip [of "tokenize (removeWhitespace a)" "[Str l, Num (suffixValue d)]"]
      by simp
    then show ?thesis
      by (simp add: nameOrder_def sortKey_def a Some pb)
  qed
next
  case a: (Some pa)
  obtain l1 d1 where pa: "pa = (l1, d1)" by (cases pa)
  show ?thesis
  proof (cases "matchLettersDigits (removeWhitespace b)")
    case None
    have "lexCompare tokenOrder (tokenize (removeWhitespace a)) (tokenize (removeWhitespace b))
        = lexCompare tokenOrder [Str l1, Num (suffixValue d1)] (tokenize (removeWhitespace b))"
      by (rule key_of_unshaped) (simp_all add: a pa None)
    then show ?thesis
      by (simp add: nameOrder_def sortKey_def a pa None)
  next
    case (Some pb)
    obtain l2 d2 where pb: "pb = (l2, d2)" by (cases pb)
    show ?thesis
      by (simp add: nameOrder_def sortKey_def a pa Some pb)
  qed
qed

lemma compareStrings_sortKey:
  "compareStrings a b \<le> 0 \<longleftrightarrow> lexCompare tokenOrder (sortKey a) (sortKey b) \<le> 0"
proof -
  have "sgn (compareStrings a b) \<le> 0 \<longleftrightarrow> compareStrings a b \<le> 0"
    by (simp add: sgn_if)
  then show ?thesis
    by (simp add: compareStrings_nameOrder nameOrder_sortKey)
qed

lemma compareStrings_total: "compareStrings a b \<le> 0 \<or> compareStrings b a \<le> 0"
  using compareStrings_flip [of b a] by auto

lemma compareStrings_trans:
  "compareStrings a b \<le> 0 \<Longrightarrow> compareStrings b c \<le> 0 \<Longrightarrow> compareStrings a c \<le> 0"
  unfolding compareStrings_sortKey by (rule tokens_trans)

lemma compareStrings_equal_keys: "compareStrings a b = 0 \<longleftrightarrow> sortKey a = sortKey b"
proof -
  have "compareStrings a b = 0 \<longleftrightarrow> sgn (compareStrings a b) = 0"
    by (simp add: sgn_if)
  then show ?thesis
    by (simp add: compareStrings_nameOrder nameOrder_sortKey tokens_zero)
qed

lemma set_Array_insert: "set (Array_insert c x ys) = insert x (set ys)"
  by (induction ys) auto

lemma sorted_Array_insert:
  assumes total: "\<And>x y. c x y \<le> 0 \<or> c y x \<le> 0"
    and trans: "\<And>x y z. c x y \<le> 0 \<Longrightarrow> c y z \<le> 0 \<Longrightarrow> c x z \<le> 0"
  shows "sorted_wrt (\<lambda>x y. c x y \<le> 0) ys \<Longrightarrow> sorted_wrt (\<lambda>x y. c x y \<le> 0) (Array_insert c x ys)"
proof (induction ys)
  case Nil
  show ?case by simp
next
  case (Cons y ys)
  show ?case
  proof (cases "c x y \<le> 0")
    case True
    have "c x z \<le> 0" if "z \<in> set ys" for z
      using Cons.prems that trans [OF True, of z] by simp
    with True Cons.prems show ?thesis by simp
  next
    case False
    with total [of x y] have "c y x \<le> 0" by simp
    with False Cons show ?thesis by (simp add: set_Array_insert)
  qed
qed

lemma sorted_Array_sort:
  assumes total: "\<And>x y. c x y \<le> 0 \<or> c y x \<le> 0"
    and trans: "\<And>x y z. c x y \<le> 0 \<Longrightarrow> c y z \<le> 0 \<Longrightarrow> c x z \<le> 0"
  shows "sorted_wrt (\<lambda>x y. c x y \<le> 0) (Array_sort c xs)"
proof (induction xs)
  case Nil
  show ?case by (simp add: Array_sort_def)
next
  case (Cons x xs)
  have "Array_sort c (x # xs) = Array_insert c x (Array_sort c xs)"
    by (simp add: Array_sort_def)
  with Cons show ?case
    by (simp add: sorted_Array_insert [of c, OF total trans])
qed

lemma sorted_wrt_unique:
  assumes anti: "\<And>x y. x \<in> set xs \<Longrightarrow> y \<in> set xs \<Longrightarrow> R x y \<Longrightarrow> R y x \<Longrightarrow> x = y"
  shows "sorted_wrt R xs \<Longrightarrow> sorted_wrt R ys \<Longrightarrow> mset xs = mset ys \<Longrightarrow> xs = ys"
  using anti
proof (induction xs arbitrary: ys)
  case Nil
  then show ?case by simp
next
  case (Cons x xs)
  from Cons.prems(3) obtain y ys' where ys: "ys = y # ys'"
    by (cases ys) auto
  have sets: "set (x # xs) = set (y # ys')"
    using Cons.prems(3) unfolding ys by (rule mset_eq_setD)
  have "x = y"
  proof (rule ccontr)
    assume ne: "x \<noteq> y"
    with sets have "x \<in> set ys'" "y \<in> set xs" by auto
    then have "R y x" "R x y"
      using Cons.prems(1,2) unfolding ys by auto
    then have "x = y"
      using Cons.prems(4) [of x y] \<open>y \<in> set xs\<close> by simp
    with ne show False by simp
  qed
  moreover have "xs = ys'"
  proof (rule Cons.IH)
    show "sorted_wrt R xs" using Cons.prems(1) by simp
    show "sorted_wrt R ys'" using Cons.prems(2) unfolding ys by simp
    show "mset xs = mset ys'" using Cons.prems(3) \<open>x = y\<close> unfolding ys by simp
    show "x' = y'" if "x' \<in> set xs" "y' \<in> set xs" "R x' y'" "R y' x'" for x' y'
      using Cons.prems(4) [of x' y'] that by simp
  qed
  ultimately show ?case by (simp add: ys)
qed

lemma sorted_entries:
  "sorted_wrt (\<lambda>a b. compareStrings (fst a) (fst b) \<le> 0)
     (Array_sort (\<lambda>a b. compareStrings (fst a) (fst b)) es)"
  by (rule sorted_Array_sort [of "\<lambda>a b. compareStrings (fst a) (fst b)"])
    (rule compareStrings_total, erule compareStrings_trans)

lemma getAllMonitorData_sorted:
  assumes inv: "store_inv rt this"
    and names: "map Host_Name (getAllMonitorData rt this) = map Some names"
  shows "sorted_wrt (\<lambda>a b. compareStrings a b \<le> 0) names"
    and "mset names = mset (map fst (monitorData this))"
proof -
  let ?sorted = "Array_sort (\<lambda>a b. compareStrings (fst a) (fst b)) (getAllMonitorData_entries rt this)"
  have "map Some names = map Some (map fst ?sorted)"
    using getAllMonitorData_names [OF inv] names by simp
  then have n: "names = map fst ?sorted"
    by (rule map_injective) (simp add: inj_def)
  show "sorted_wrt (\<lambda>a b. compareStrings a b \<le> 0) names"
    unfolding n sorted_wrt_map by (rule sorted_entries)
  have "mset (map fst ?sorted) = mset (map fst (getAllMonitorData_entries rt this))"
    by (simp add: mset_Array_sort)
  then show "mset names = mset (map fst (monitorData this))"
    by (simp add: n getAllMonitorData_entries_inv(1) [OF inv])
qed

lemma getAllMonitorData_has_names:
  assumes inv: "store_inv rt this"
  shows "\<exists>names. map Host_Name (getAllMonitorData rt this) = map Some names"
  using getAllMonitorData_names [OF inv]
  by (intro exI [of _ "map fst (Array_sort (\<lambda>a b. compareStrings (fst a) (fst b))
        (getAllMonitorData_entries rt this))"]) simp

lemmas compare_eval = compareStrings_def removeWhitespace_def isWhiteSpace_def
  matchLettersDigits_def isLetter_def isDigit_def parseInt_def mathInt_def Number_value_small
  naturalCompare_def Let_def js_def

lemma example_names_ordered:
  "compareStrings (js ''HK1'') (js ''HK2'') < 0"
  "compareStrings (js ''HK1'') (js ''HK10'') < 0"
  "compareStrings (js ''HK1'') (js ''US1'') < 0"
  "compareStrings (js ''HK2'') (js ''HK10'') < 0"
  "compareStrings (js ''HK2'') (js ''US1'') < 0"
  "compareStrings (js ''HK10'') (js ''US1'') < 0"
  by (simp_all add: compare_eval)

lemma example_big_rounds:
  "Number_value 9007199254740993 = enat 9007199254740992"
  "Number_value 9007199254740992 = enat 9007199254740992"
  by (simp_all add: Number_value_def lostBits.simps [of 9007199254740993]
      lostBits.simps [of 9007199254740992] lostBits.simps [of 4503599627370496] Let_def)

lemma example_big_equal:
  "compareStrings (js ''HK9007199254740993'') (js ''HK9007199254740992'') = 0"
  by (simp add: compareStrings_def removeWhitespace_def isWhiteSpace_def
      matchLettersDigits_def isLetter_def isDigit_def parseInt_def mathInt_def example_big_rounds
      Let_def js_def)

lemma example_big_ints:
  "mathInt (js ''9007199254740992'') < mathInt (js ''9007199254740993'')"
  by (simp add: mathInt_def js_def)

lemma example_decode_named:
  "list_all (\<lambda>c. c \<noteq> 0x3A) nm
   \<Longrightarrow> decodeSnapshot example_runtime (Text (0x7B # nm @ [0x3A, 0x31]))
       = Some (0x7B # nm @ [0x3A, 0x31],
               \<lparr>Host = Some \<lparr>Name = Some nm, info = ()\<rparr>, State = (), TimeStamp = 1\<rparr>)"
proof -
  assume nm: "list_all (\<lambda>c. c \<noteq> 0x3A) nm"
  have stop: "[0x3A, 0x31 :: jschar] = [] \<or> \<not> hd [0x3A, 0x31 :: jschar] \<noteq> 0x3A"
    by simp
  have "takeWhile (\<lambda>c. c \<noteq> 0x3A) (nm @ [0x3A, 0x31]) = nm"
    "dropWhile (\<lambda>c. c \<noteq> 0x3A) (nm @ [0x3A, 0x31]) = [0x3A, 0x31]"
    using takeWhile_all [OF nm stop] dropWhile_all [OF nm stop] by simp_all
  then show ?thesis
    by (simp add: decodeSnapshot_def decodeFrame_def tryDecompressStringMessage_def
        example_runtime_def example_JSON_parse_def mathInt_def)
qed

lemma example_put_named:
  assumes nm: "list_all (\<lambda>c. c \<noteq> 0x3A) nm" "nm \<noteq> []"
    and room: "length (monitorData this) < 500" and nv: "webSockets this = []"
  shows "fst (handleAgentData example_runtime this w (Text (0x7B # nm @ [0x3A, 0x31])))
         = this\<lparr>monitorData := Map_set (monitorData this) nm (0x7B # nm @ [0x3A, 0x31]),
                 cachedViewerPayload := None\<rparr>"
  using nm(2) room nv
  by (simp add: handleAgentData_decoded example_decode_named [OF nm(1)] Host_Name_def
      Map_size_def MONITOR_DATA_MAX_ENTRIES_def broadcastToViewers_def getWebSockets_def)

lemma example_four_eq:
  "monitorData example_four
   = [(js ''HK10'', js ''{HK10:1''), (js ''HK2'', js ''{HK2:1''), (js ''HK1'', js ''{HK1:1''),
      (js ''US1'', js ''{US1:1'')]"
proof -
  have f: "js ''{HK10:1'' = 0x7B # js ''HK10'' @ [0x3A, 0x31]"
    "js ''{HK2:1'' = 0x7B # js ''HK2'' @ [0x3A, 0x31]"
    "js ''{HK1:1'' = 0x7B # js ''HK1'' @ [0x3A, 0x31]"
    "js ''{US1:1'' = 0x7B # js ''US1'' @ [0x3A, 0x31]"
    by (simp_all add: js_def)
  have n: "list_all (\<lambda>c. c \<noteq> 0x3A) (js ''HK10'')" "js ''HK10'' \<noteq> []"
    "list_all (\<lambda>c. c \<noteq> 0x3A) (js ''HK2'')" "js ''HK2'' \<noteq> []"
    "list_all (\<lambda>c. c \<noteq> 0x3A) (js ''HK1'')" "js ''HK1'' \<noteq> []"
    "list_all (\<lambda>c. c \<noteq> 0x3A) (js ''US1'')" "js ''US1'' \<noteq> []"
    by (simp_all add: js_def)
  show ?thesis
    unfolding example_four_def f putAll_Cons
    by (simp add: example_put_named n example_initial putAll_def) (simp add: js_def)
qed

lemma example_four_inv: "store_inv example_runtime example_four"
  by (simp add: store_inv_def example_four_eq Map_size_def MONITOR_DATA_MAX_ENTRIES_def
      example_runtime_def example_JSON_parse_def Host_Name_def)
    (simp add: js_def)

lemma example_four_keys:
  "set (map fst (monitorData example_four))
   = {js ''HK10'', js ''HK2'', js ''HK1'', js ''US1''}"
  by (simp add: example_four_eq)

lemma example_big_eq:
  "monitorData example_big
   = [(js ''HK9007199254740993'', js ''{HK9007199254740993:1''),
      (js ''HK9007199254740992'', js ''{HK9007199254740992:1'')]"
proof -
  have f: "js ''{HK9007199254740993:1'' = 0x7B # js ''HK9007199254740993'' @ [0x3A, 0x31]"
    "js ''{HK9007199254740992:1'' = 0x7B # js ''HK9007199254740992'' @ [0x3A, 0x31]"
    by (simp_all add: js_def)
  have n: "list_all (\<lambda>c. c \<noteq> 0x3A) (js ''HK9007199254740993'')"
    "js ''HK9007199254740993'' \<noteq> []"
    "list_all (\<lambda>c. c \<noteq> 0x3A) (js ''HK9007199254740992'')"
    "js ''HK9007199254740992'' \<noteq> []"
    by (simp_all add: js_def)
  show ?thesis
    unfolding example_big_def f putAll_Cons
    by (simp add: example_put_named n example_initial putAll_def) (simp add: js_def)
qed

lemma example_big_all:
  "map Host_Name (getAllMonitorData example_runtime example_big)
   = [Some (js ''HK9007199254740993''), Some (js ''HK9007199254740992'')]"
proof -
  have p: "JSON_parse example_runtime (js ''{HK9007199254740993:1'')
      = Inr \<lparr>Host = Some \<lparr>Name = Some (js ''HK9007199254740993''), info = ()\<rparr>, State = (),
             TimeStamp = 1\<rparr>"
    "JSON_parse example_runtime (js ''{HK9007199254740992:1'')
      = Inr \<lparr>Host = Some \<lparr>Name = Some (js ''HK9007199254740992''), info = ()\<rparr>, State = (),
             TimeStamp = 1\<rparr>"
    by (simp_all add: example_runtime_def example_JSON_parse_def js_def mathInt_def)
  show ?thesis
    by (simp add: getAllMonitorData_def getAllMonitorData_entries_def example_big_eq
        List.map_filter_def p Array_sort_def example_big_equal Host_Name_def)
qed

lemma getAllMonitorData_stored:
  assumes inv: "store_inv rt this" and m: "m \<in> set (getAllMonitorData rt this)"
  shows "\<exists>k v. Map_get (monitorData this) k = Some v \<and> JSON_parse rt v = Inr m
               \<and> Host_Name m = Some k"
proof -
  from m obtain e where e: "e \<in> set (monitorData this)" "JSON_parse rt (snd e) = Inr m"
    by (auto simp: set_getAllMonitorData)
  obtain k v where kv: "e = (k, v)" by (cases e)
  from inv have d: "distinct (map fst (monitorData this))"
    by (simp add: store_inv_def)
  from inv e(1) have "\<exists>data. JSON_parse rt v = Inr data \<and> Host_Name data = Some k"
    unfolding kv by (simp add: store_inv_alt)
  with e(2) have "Host_Name m = Some k"
    by (simp add: kv)
  moreover have "Map_get (monitorData this) k = Some v"
    using d e(1) by (simp add: kv Map_get_def)
  ultimately show ?thesis
    using e(2) by (auto simp: kv)
qed

lemma example_order:
  assumes inv: "store_inv rt this"
    and keys: "set (map fst (monitorData this)) = {js ''HK10'', js ''HK2'', js ''HK1'', js ''US1''}"
  shows "map Host_Name (getAllMonitorData rt this)
         = map Some [js ''HK1'', js ''HK2'', js ''HK10'', js ''US1'']"
proof -
  let ?R = "\<lambda>a b. compareStrings a b \<le> 0"
  let ?target = "[js ''HK1'', js ''HK2'', js ''HK10'', js ''US1'']"
  from getAllMonitorData_has_names [OF inv] obtain names where
    names: "map Host_Name (getAllMonitorData rt this) = map Some names"
    by blast
  note lt = example_names_ordered
  have gt: "compareStrings (js ''HK2'') (js ''HK1'') > 0"
    "compareStrings (js ''HK10'') (js ''HK1'') > 0"
    "compareStrings (js ''US1'') (js ''HK1'') > 0"
    "compareStrings (js ''HK10'') (js ''HK2'') > 0"
    "compareStrings (js ''US1'') (js ''HK2'') > 0"
    "compareStrings (js ''US1'') (js ''HK10'') > 0"
    using lt
    by (simp_all add: compareStrings_flip [of "js ''HK2''" "js ''HK1''"]
        compareStrings_flip [of "js ''HK10''" "js ''HK1''"]
        compareStrings_flip [of "js ''US1''" "js ''HK1''"]
        compareStrings_flip [of "js ''HK10''" "js ''HK2''"]
        compareStrings_flip [of "js ''US1''" "js ''HK2''"]
        compareStrings_flip [of "js ''US1''" "js ''HK10''"])
  have st: "sorted_wrt ?R ?target"
    using lt by simp
  have dt: "distinct ?target"
    by (simp add: js_def)
  from inv have dk: "distinct (map fst (monitorData this))"
    by (simp add: store_inv_def)
  have "set (map fst (monitorData this)) = set ?target"
    unfolding keys by auto
  with dk dt have mk: "mset (map fst (monitorData this)) = mset ?target"
    by (simp only: set_eq_iff_mset_eq_distinct)
  have mn: "mset ?target = mset names"
    using getAllMonitorData_sorted(2) [OF inv names] mk by simp
  have sn: "sorted_wrt ?R names"
    by (rule getAllMonitorData_sorted(1) [OF inv names])
  have "?target = names"
  proof (rule sorted_wrt_unique [of ?target ?R names, OF _ st sn mn])
    fix x y
    assume "x \<in> set ?target" "y \<in> set ?target" "compareStrings x y \<le> 0" "compareStrings y x \<le> 0"
    then show "x = y"
      using lt gt by auto
  qed
  with names show ?thesis by simp
qed

lemma example_four_member:
  "\<lparr>Host = Some \<lparr>Name = Some (js ''HK1''), info = ()\<rparr>, State = (), TimeStamp = 1\<rparr>
   \<in> set (getAllMonitorData example_runtime example_four)"
  by (simp add: set_getAllMonitorData example_four_eq example_runtime_def example_JSON_parse_def
      js_def mathInt_def)

lemma example_runs:
  "mathInt (js ''10'') < 2 ^ 53" "js ''10'' \<noteq> []" "list_all isDigit (js ''10'')"
  "\<not> isDigit (hd (js ''a''))" "js ''HK'' \<noteq> []" "list_all (\<lambda>c. \<not> isDigit c) (js ''HK'')"
  "isDigit (hd (js ''10''))"
  by (simp_all add: mathInt_def isDigit_def js_def)

text \<open>
  Claim C3, amended: the numeric suffixes and the digit runs are compared as the
  JavaScript numbers \<^verbatim>\<open>parseInt\<close> gives, which are the integers only below
  \<open>2 ^ 53\<close>. The comparator is the one the specification words (\<open>nameOrder\<close>), up to
  the magnitude of a non-zero result: whitespace is stripped; an identity has the
  letters-then-digits shape when it is a non-empty run of letters followed by a run of
  digits; for two such identities the letters are compared character by character by
  code, the shorter first on a tie, then the suffix values, an absent suffix counting
  as 0; otherwise the sequences of maximal digit runs and other runs are compared, digit
  runs by value, other runs lexicographically, a digit run before another run, the
  shorter sequence first on a tie. The comparator orders any two identities and is
  transitive, so sorting by it is well defined. For a store satisfying its invariant,
  the list returned by \<open>getAllMonitorData\<close>, which \<open>rpcFetchData\<close> answers with, holds
  the parsed stored snapshots, one per key, sorted by the comparator on their names. A
  store holding exactly \<open>HK10\<close>, \<open>HK2\<close>, \<open>HK1\<close>, \<open>US1\<close>, whatever the order they were
  inserted in, is returned as \<open>HK1\<close>, \<open>HK2\<close>, \<open>HK10\<close>, \<open>US1\<close>.
\<close>

theorem C3_sorted_by_name:
  "sgn (compareStrings a b) = nameOrder a b
   \<and> (matchLettersDigits s = Some (letters, digits)
        \<longleftrightarrow> s = letters @ digits \<and> letters \<noteq> [] \<and> list_all isLetter letters
            \<and> list_all isDigit digits)
   \<and> suffixValue digits = (if digits = [] then 0 else Number_value (mathInt digits))
   \<and> (mathInt digits < 2 ^ 53 \<longrightarrow> Number_value (mathInt digits) = enat (mathInt digits))
   \<and> (ds \<noteq> [] \<and> list_all isDigit ds \<and> (r = [] \<or> \<not> isDigit (hd r))
        \<longrightarrow> tokenize (ds @ r) = Num (Number_value (mathInt ds)) # tokenize r)
   \<and> (l \<noteq> [] \<and> list_all (\<lambda>c. \<not> isDigit c) l \<and> (r' = [] \<or> isDigit (hd r'))
        \<longrightarrow> tokenize (l @ r') = Str l # tokenize r')
   \<and> (compareStrings a b \<le> 0 \<or> compareStrings b a \<le> 0)
   \<and> (compareStrings a b \<le> 0 \<and> compareStrings b c \<le> 0 \<longrightarrow> compareStrings a c \<le> 0)
   \<and> (store_inv rt this
        \<longrightarrow> (\<exists>names. map Host_Name (getAllMonitorData rt this) = map Some names
               \<and> sorted_wrt (\<lambda>x y. compareStrings x y \<le> 0) names
               \<and> mset names = mset (map fst (monitorData this))))
   \<and> (store_inv rt this \<and> m \<in> set (getAllMonitorData rt this)
        \<longrightarrow> (\<exists>k v. Map_get (monitorData this) k = Some v \<and> JSON_parse rt v = Inr m
               \<and> Host_Name m = Some k))
   \<and> (store_inv rt this
          \<and> set (map fst (monitorData this)) = {js ''HK10'', js ''HK2'', js ''HK1'', js ''US1''}
        \<longrightarrow> map Host_Name (getAllMonitorData rt this)
            = map Some [js ''HK1'', js ''HK2'', js ''HK10'', js ''US1''])
   \<and> rpcFetchData rt this
       = \<lparr>status = 200, success = True, body = Monitors (getAllMonitorData rt this)\<rparr>"
proof (intro conjI impI)
  show "sgn (compareStrings a b) = nameOrder a b"
    by (rule compareStrings_nameOrder)
  show "matchLettersDigits s = Some (letters, digits)
        \<longleftrightarrow> s = letters @ digits \<and> letters \<noteq> [] \<and> list_all isLetter letters
            \<and> list_all isDigit digits"
    by (rule matchLettersDigits_iff)
  show "suffixValue digits = (if digits = [] then 0 else Number_value (mathInt digits))"
    by (simp add: suffixValue_def parseInt_def)
  show "compareStrings a b \<le> 0 \<or> compareStrings b a \<le> 0"
    by (rule compareStrings_total)
  show "rpcFetchData rt this
       = \<lparr>status = 200, success = True, body = Monitors (getAllMonitorData rt this)\<rparr>"
    by (simp add: rpcFetchData_def)
next
  assume "mathInt digits < 2 ^ 53"
  then show "Number_value (mathInt digits) = enat (mathInt digits)"
    by (rule Number_value_small)
next
  assume "ds \<noteq> [] \<and> list_all isDigit ds \<and> (r = [] \<or> \<not> isDigit (hd r))"
  then show "tokenize (ds @ r) = Num (Number_value (mathInt ds)) # tokenize r"
    using tokenize_digits [of ds r] by (simp add: parseInt_def)
next
  assume "l \<noteq> [] \<and> list_all (\<lambda>c. \<not> isDigit c) l \<and> (r' = [] \<or> isDigit (hd r'))"
  then show "tokenize (l @ r') = Str l # tokenize r'"
    using tokenize_nondigits [of l r'] by simp
next
  assume "compareStrings a b \<le> 0 \<and> compareStrings b c \<le> 0"
  then show "compareStrings a c \<le> 0"
    using compareStrings_trans [of a b c] by simp
next
  assume inv: "store_inv rt this"
  from getAllMonitorData_has_names [OF inv] obtain names where
    names: "map Host_Name (getAllMonitorData rt this) = map Some names"
    by blast
  show "\<exists>names. map Host_Name (getAllMonitorData rt this) = map Some names
               \<and> sorted_wrt (\<lambda>x y. compareStrings x y \<le> 0) names
               \<and> mset names = mset (map fst (monitorData this))"
    using names getAllMonitorData_sorted [OF inv names] by (intro exI [of _ names]) simp
next
  assume "store_inv rt this \<and> m \<in> set (getAllMonitorData rt this)"
  then show "\<exists>k v. Map_get (monitorData this) k = Some v \<and> JSON_parse rt v = Inr m
               \<and> Host_Name m = Some k"
    using getAllMonitorData_stored [of rt this m] by simp
next
  assume "store_inv rt this
          \<and> set (map fst (monitorData this)) = {js ''HK10'', js ''HK2'', js ''HK1'', js ''US1''}"
  then show "map Host_Name (getAllMonitorData rt this)
            = map Some [js ''HK1'', js ''HK2'', js ''HK10'', js ''US1'']"
    using example_order [of rt this] by simp
qed

theorem C3_witness:
  "mathInt (js ''10'') < 2 ^ 53
   \<and> Number_value (mathInt (js ''10'')) = enat (mathInt (js ''10''))
   \<and> js ''10'' \<noteq> [] \<and> list_all isDigit (js ''10'') \<and> \<not> isDigit (hd (js ''a''))
   \<and> tokenize (js ''10'' @ js ''a'') = Num (Number_value (mathInt (js ''10''))) # tokenize (js ''a'')
   \<and> js ''HK'' \<noteq> [] \<and> list_all (\<lambda>c. \<not> isDigit c) (js ''HK'') \<and> isDigit (hd (js ''10''))
   \<and> tokenize (js ''HK'' @ js ''10'') = Str (js ''HK'') # tokenize (js ''10'')
   \<and> compareStrings (js ''HK1'') (js ''HK2'') \<le> 0
   \<and> compareStrings (js ''HK2'') (js ''HK10'') \<le> 0
   \<and> compareStrings (js ''HK1'') (js ''HK10'') \<le> 0
   \<and> store_inv example_runtime example_four
   \<and> (\<exists>names. map Host_Name (getAllMonitorData example_runtime example_four) = map Some names
          \<and> sorted_wrt (\<lambda>x y. compareStrings x y \<le> 0) names
          \<and> mset names = mset (map fst (monitorData example_four)))
   \<and> \<lparr>Host = Some \<lparr>Name = Some (js ''HK1''), info = ()\<rparr>, State = (), TimeStamp = 1\<rparr>
       \<in> set (getAllMonitorData example_runtime example_four)
   \<and> (\<exists>k v. Map_get (monitorData example_four) k = Some v
          \<and> JSON_parse example_runtime v
              = Inr \<lparr>Host = Some \<lparr>Name = Some (js ''HK1''), info = ()\<rparr>, State = (), TimeStamp = 1\<rparr>
          \<and> Host_Name \<lparr>Host = Some \<lparr>Name = Some (js ''HK1''), info = ()\<rparr>, State = (), TimeStamp = 1\<rparr>
              = Some k)
   \<and> set (map fst (monitorData example_four)) = {js ''HK10'', js ''HK2'', js ''HK1'', js ''US1''}
   \<and> map Host_Name (getAllMonitorData example_runtime example_four)
       = map Some [js ''HK1'', js ''HK2'', js ''HK10'', js ''US1'']"
proof -
  note inst = C3_sorted_by_name [where a = "js ''HK1''" and b = "js ''HK2''" and c = "js ''HK10''"
      and s = "js ''HK10''" and letters = "js ''HK''" and digits = "js ''10''"
      and ds = "js ''10''" and r = "js ''a''" and l = "js ''HK''" and r' = "js ''10''"
      and rt = example_runtime and this = example_four
      and m = "\<lparr>Host = Some \<lparr>Name = Some (js ''HK1''), info = ()\<rparr>, State = (), TimeStamp = 1\<rparr>"]
  note rest3 = inst [THEN conjunct2, THEN conjunct2, THEN conjunct2]
  have small: "Number_value (mathInt (js ''10'')) = enat (mathInt (js ''10''))"
    by (rule rest3 [THEN conjunct1, THEN mp, OF example_runs(1)])
  note rest4 = rest3 [THEN conjunct2]
  have digits: "tokenize (js ''10'' @ js ''a'')
      = Num (Number_value (mathInt (js ''10''))) # tokenize (js ''a'')"
    by (rule rest4 [THEN conjunct1, THEN mp,
        OF conjI [OF example_runs(2) conjI [OF example_runs(3) disjI2 [OF example_runs(4)]]]])
  note rest5 = rest4 [THEN conjunct2]
  have letters: "tokenize (js ''HK'' @ js ''10'') = Str (js ''HK'') # tokenize (js ''10'')"
    by (rule rest5 [THEN conjunct1, THEN mp,
        OF conjI [OF example_runs(5) conjI [OF example_runs(6) disjI2 [OF example_runs(7)]]]])
  note rest7 = rest5 [THEN conjunct2, THEN conjunct2]
  have le: "compareStrings (js ''HK1'') (js ''HK2'') \<le> 0"
    "compareStrings (js ''HK2'') (js ''HK10'') \<le> 0"
    using example_names_ordered(1,4) by simp_all
  have trans: "compareStrings (js ''HK1'') (js ''HK10'') \<le> 0"
    by (rule rest7 [THEN conjunct1, THEN mp, OF conjI [OF le]])
  note rest8 = rest7 [THEN conjunct2]
  note sorted = rest8 [THEN conjunct1, THEN mp, OF example_four_inv]
  note rest9 = rest8 [THEN conjunct2]
  note stored = rest9 [THEN conjunct1, THEN mp, OF conjI [OF example_four_inv example_four_member]]
  note rest10 = rest9 [THEN conjunct2]
  note four = rest10 [THEN conjunct1, THEN mp, OF conjI [OF example_four_inv example_four_keys]]
  show ?thesis
    using example_runs(1) small example_runs(2,3,4) digits example_runs(5,6,7) letters le trans
      example_four_inv sorted example_four_member stored example_four_keys four
    by (intro conjI)
qed

text \<open>
  Claim C3 as it is worded, suffixes compared as integers, fails above \<open>2 ^ 53\<close>: the
  identities \<open>HK9007199254740993\<close> and \<open>HK9007199254740992\<close> have the letters-then-digits
  shape and equal letters, the second suffix is the smaller integer, and the comparator
  gives 0, because both suffixes are the same double. A store that was sent the first
  and then the second returns them in that order.
\<close>

theorem C3_suffix_rounded:
  "matchLettersDigits (removeWhitespace (js ''HK9007199254740993''))
     = Some (js ''HK'', js ''9007199254740993'')
   \<and> matchLettersDigits (removeWhitespace (js ''HK9007199254740992''))
     = Some (js ''HK'', js ''9007199254740992'')
   \<and> mathInt (js ''9007199254740992'') < mathInt (js ''9007199254740993'')
   \<and> compareStrings (js ''HK9007199254740993'') (js ''HK9007199254740992'') = 0
   \<and> map fst (monitorData example_big) = [js ''HK9007199254740993'', js ''HK9007199254740992'']
   \<and> map Host_Name (getAllMonitorData example_runtime example_big)
     = [Some (js ''HK9007199254740993''), Some (js ''HK9007199254740992'')]"
proof -
  have shape: "matchLettersDigits (removeWhitespace (js ''HK9007199254740993''))
     = Some (js ''HK'', js ''9007199254740993'')"
    "matchLettersDigits (removeWhitespace (js ''HK9007199254740992''))
     = Some (js ''HK'', js ''9007199254740992'')"
    by (simp_all add: removeWhitespace_def isWhiteSpace_def matchLettersDigits_def isLetter_def
        isDigit_def Let_def js_def)
  have keys: "map fst (monitorData example_big)
      = [js ''HK9007199254740993'', js ''HK9007199254740992'']"
    by (simp add: example_big_eq)
  show ?thesis
    using shape example_big_ints example_big_equal keys example_big_all by (intro conjI)
qed

end
